theory Spec2Isabelle
  imports Main "HOL-Library.Multiset"
begin

section \<open>Insyte: event tracking over a remote hash store\<close>

text \<open>
  The class \<open>Insyte\<close> formats a storage key from an event name (and, for ephemeral
  events, the current date), serialises the event and increments a hash field of a
  remote store; on reading it fetches all fields of one day, or of several days at once.
  Its collaborators are not part of the sources: the store client (\<open>redis\<close>), the date
  library (\<open>format\<close>, \<open>subDays\<close>, \<open>parse\<close>) and the platform functions
  \<open>JSON.stringify\<close>, \<open>Number\<close>, \<open>Promise.all\<close> and \<open>Array.prototype.sort\<close>.
  They are modelled first; the three methods and the helper \<open>getDate\<close> follow.
\<close>

subsection \<open>Decimal numerals\<close>

definition digit_char :: "nat \<Rightarrow> char" where
  "digit_char d = char_of (48 + d)"

definition is_digit :: "char \<Rightarrow> bool" where
  "is_digit c \<longleftrightarrow> (48::nat) \<le> of_char c \<and> of_char c \<le> (57::nat)"

definition digit_val :: "char \<Rightarrow> nat" where
  "digit_val c = of_char c - 48"

fun show_nat :: "nat \<Rightarrow> string" where
  "show_nat n = (if n < 10 then [digit_char n] else show_nat (n div 10) @ [digit_char (n mod 10)])"

declare show_nat.simps [simp del]

definition show_int :: "int \<Rightarrow> string" where
  "show_int i = (if i < 0 then CHR ''-'' # show_nat (nat (- i)) else show_nat (nat i))"

definition read_nat :: "string \<Rightarrow> nat option" where
  "read_nat s =
     (if s \<noteq> [] \<and> list_all is_digit s
      then Some (foldl (\<lambda>a c. 10 * a + digit_val c) 0 s) else None)"

definition read_int :: "string \<Rightarrow> int option" where
  "read_int s =
     (case s of
        [] \<Rightarrow> None
      | c # r \<Rightarrow> if c = CHR ''-'' then map_option (\<lambda>n. - int n) (read_nat r)
                 else map_option int (read_nat s))"

definition addLeadingZeros :: "nat \<Rightarrow> nat \<Rightarrow> string" where
  "addLeadingZeros n targetLength =
     replicate (targetLength - length (show_nat n)) CHR ''0'' @ show_nat n"

subsection \<open>The date library\<close>

text \<open>
  Modelled from the spec: the date utility (\<open>format\<close>, \<open>subDays\<close> and \<open>parse\<close> of the
  date library, and the platform clock) is not among the sources. The spec asks of it
  to format "N days before now" as \<open>dd/MM/yyyy\<close> and to parse such a string back into a
  comparable date value. A date is a day of the proleptic Gregorian calendar in local
  time; the time of day plays no part in either operation.
\<close>

record local_date =
  year :: int
  month :: nat
  day :: nat

definition isLeapYear :: "int \<Rightarrow> bool" where
  "isLeapYear y \<longleftrightarrow> y mod 4 = 0 \<and> (y mod 100 \<noteq> 0 \<or> y mod 400 = 0)"

definition daysInMonth :: "int \<Rightarrow> nat \<Rightarrow> nat" where
  "daysInMonth y m =
     (if m = 2 then (if isLeapYear y then 29 else 28)
      else if m = 4 \<or> m = 6 \<or> m = 9 \<or> m = 11 then 30 else 31)"

definition valid_date :: "local_date \<Rightarrow> bool" where
  "valid_date d \<longleftrightarrow>
     1 \<le> month d \<and> month d \<le> 12 \<and> 1 \<le> day d \<and> day d \<le> daysInMonth (year d) (month d)"

definition prev_day :: "local_date \<Rightarrow> local_date" where
  "prev_day d =
     (if 1 < day d then d\<lparr>day := day d - 1\<rparr>
      else if 1 < month d
      then d\<lparr>month := month d - 1, day := daysInMonth (year d) (month d - 1)\<rparr>
      else \<lparr>year = year d - 1, month = 12, day = 31\<rparr>)"

text \<open>\<open>subDays d n\<close> is the calendar day \<open>n\<close> days before \<open>d\<close>.\<close>

primrec subDays :: "local_date \<Rightarrow> nat \<Rightarrow> local_date" where
  "subDays d 0 = d"
| "subDays d (Suc n) = prev_day (subDays d n)"

text \<open>
  \<open>format d 'dd/MM/yyyy'\<close>: day and month with two digits, the year of the era with at
  least four.
\<close>

definition format_ddMMyyyy :: "local_date \<Rightarrow> string" where
  "format_ddMMyyyy d =
     addLeadingZeros (day d) 2 @ ''/'' @ addLeadingZeros (month d) 2 @ ''/'' @
     addLeadingZeros (if 0 < year d then nat (year d) else nat (1 - year d)) 4"

text \<open>
  \<open>parse s 'dd/MM/yyyy'\<close>: \<open>None\<close> stands for the library's Invalid Date, the answer to
  a string of another shape or to a day that the calendar does not have.
\<close>

definition parse_ddMMyyyy :: "string \<Rightarrow> local_date option" where
  "parse_ddMMyyyy s =
     (if 6 < length s \<and> s ! 2 = CHR ''/'' \<and> s ! 5 = CHR ''/''
      then (case (read_nat (take 2 s), read_nat (take 2 (drop 3 s)), read_nat (drop 6 s)) of
              (Some dd, Some mm, Some yyyy) \<Rightarrow>
                (let d = \<lparr>year = int yyyy, month = mm, day = dd\<rparr>
                 in if 4 \<le> length (drop 6 s) \<and> 0 < yyyy \<and> valid_date d then Some d else None)
            | _ \<Rightarrow> None)
      else None)"

text \<open>
  Two dates compare as their timestamps do, which for days of one calendar is the
  lexicographic order on year, month and day.
\<close>

definition date_gt :: "local_date \<Rightarrow> local_date \<Rightarrow> bool" where
  "date_gt a b \<longleftrightarrow>
     year b < year a \<or> (year a = year b \<and>
       (month b < month a \<or> (month a = month b \<and> day b < day a)))"

subsection \<open>The platform: JSON.stringify, Number and Object.entries\<close>

text \<open>
  Modelled from the spec: \<open>JSON.stringify\<close>, \<open>Number\<close> and \<open>Object.entries\<close> are
  functions of the platform. An event is "an open-ended mapping from string keys to values (strings or
  arbitrary nested data)", serialised "to a canonical JSON string". An object is the list
  of its properties in enumeration order; a property whose value is \<open>undefined\<close> is left
  out of the text, and \<open>undefined\<close> in an array is written \<open>null\<close>.
\<close>

datatype json =
    JNull
  | JUndefined
  | JBool bool
  | JNum int
  | JStr string
  | JArr "json list"
  | JObj "(string \<times> json) list"

definition hex_digit :: "nat \<Rightarrow> char" where
  "hex_digit n = (if n < 10 then char_of (48 + n) else char_of (87 + n))"

definition escape_char :: "char \<Rightarrow> string" where
  "escape_char c =
     (if c = CHR 0x22 then [CHR 0x5C, CHR 0x22]
      else if c = CHR 0x5C then [CHR 0x5C, CHR 0x5C]
      else if c = CHR 0x08 then [CHR 0x5C, CHR ''b'']
      else if c = CHR 0x0C then [CHR 0x5C, CHR ''f'']
      else if c = CHR 0x0A then [CHR 0x5C, CHR ''n'']
      else if c = CHR 0x0D then [CHR 0x5C, CHR ''r'']
      else if c = CHR 0x09 then [CHR 0x5C, CHR ''t'']
      else if (of_char c :: nat) < 32
      then [CHR 0x5C, CHR ''u'', CHR ''0'', CHR ''0'',
            hex_digit (of_char c div 16), hex_digit (of_char c mod 16)]
      else [c])"

definition quote :: "string \<Rightarrow> string" where
  "quote s = CHR 0x22 # concat (map escape_char s) @ [CHR 0x22]"

fun join :: "string \<Rightarrow> string list \<Rightarrow> string" where
  "join sep [] = []"
| "join sep [x] = x"
| "join sep (x # y # ys) = x @ sep @ join sep (y # ys)"

text \<open>\<open>serialize v\<close> is \<open>None\<close> where \<open>JSON.stringify\<close> answers \<open>undefined\<close>.\<close>

fun serialize :: "json \<Rightarrow> string option"
  and serialize_elements :: "json list \<Rightarrow> string list"
  and serialize_properties :: "(string \<times> json) list \<Rightarrow> string list" where
  "serialize JNull = Some ''null''"
| "serialize JUndefined = None"
| "serialize (JBool b) = Some (if b then ''true'' else ''false'')"
| "serialize (JNum n) = Some (show_int n)"
| "serialize (JStr s) = Some (quote s)"
| "serialize (JArr vs) = Some (''['' @ join '','' (serialize_elements vs) @ '']'')"
| "serialize (JObj ps) = Some (''{'' @ join '','' (serialize_properties ps) @ ''}'')"
| "serialize_elements [] = []"
| "serialize_elements (v # vs) =
     (case serialize v of None \<Rightarrow> ''null'' | Some s \<Rightarrow> s) # serialize_elements vs"
| "serialize_properties [] = []"
| "serialize_properties (p # ps) =
     (case serialize (snd p) of
        None \<Rightarrow> serialize_properties ps
      | Some s \<Rightarrow> (quote (fst p) @ '':'' @ s) # serialize_properties ps)"

text \<open>\<open>JSON.stringify\<close> of an object literal, which always is a string.\<close>

definition JSON_stringify :: "(string \<times> json) list \<Rightarrow> string" where
  "JSON_stringify ps = ''{'' @ join '','' (serialize_properties ps) @ ''}''"

text \<open>
  \<open>Number\<close> of a string read from the store. The store holds integer counts and
  returns them as decimal text, which is all that is modelled: a string that is not a
  decimal integer is \<open>NaN\<close> here. A number is a double: an integer is rounded to 53
  significant bits, a tie to the even neighbour, and is infinite when that takes more
  than 1024 bits.
\<close>

fun bit_length :: "nat \<Rightarrow> nat" where
  "bit_length n = (if n = 0 then 0 else Suc (bit_length (n div 2)))"

declare bit_length.simps [simp del]

definition round_to_double :: "nat \<Rightarrow> nat" where
  "round_to_double n =
     (let e = bit_length n - 53;
          q = n div 2 ^ e;
          r = n mod 2 ^ e
      in if 2 ^ e < 2 * r \<or> (2 * r = 2 ^ e \<and> odd q) then (q + 1) * 2 ^ e else q * 2 ^ e)"

datatype number = Num int | NaN | PlusInfinity | MinusInfinity

definition number_of_int :: "int \<Rightarrow> number" where
  "number_of_int i =
     (let m = round_to_double (nat \<bar>i\<bar>)
      in if 1024 < bit_length m then (if i < 0 then MinusInfinity else PlusInfinity)
         else Num (if i < 0 then - int m else int m))"

definition Number :: "string \<Rightarrow> number" where
  "Number v = (case read_int v of Some i \<Rightarrow> number_of_int i | None \<Rightarrow> NaN)"

text \<open>
  \<open>Object.entries\<close> of an object whose properties were created in the order of the
  list: first the properties whose name is an array index (the decimal text, without
  leading zero, of a number below \<open>2 ^ 32 - 1\<close>) in ascending numeric order, then the
  others in the order of their creation.
\<close>

definition is_array_index :: "string \<Rightarrow> bool" where
  "is_array_index s =
     (case read_nat s of None \<Rightarrow> False | Some n \<Rightarrow> show_nat n = s \<and> n < 2 ^ 32 - 1)"

definition array_index :: "string \<Rightarrow> nat" where
  "array_index s = (case read_nat s of None \<Rightarrow> 0 | Some n \<Rightarrow> n)"

definition Object_entries :: "(string \<times> 'v) list \<Rightarrow> (string \<times> 'v) list" where
  "Object_entries obj =
     sort_key (\<lambda>p. array_index (fst p)) (filter (\<lambda>p. is_array_index (fst p)) obj) @
     filter (\<lambda>p. \<not> is_array_index (fst p)) obj"

subsection \<open>The store, the clock and the console\<close>

text \<open>
  Modelled from the spec: the store client \<open>redis\<close> is not among the sources. The spec
  asks of the store "atomic hash-field increment by integer delta, creating key/field as
  needed", "retrieval of an entire hash map by key (field to value)" and "setting/refreshing
  a time-to-live (in seconds) on a key", and says that on a key that does not exist yet
  the expiry "may be a no-op in some store semantics": \<open>expire_needs_key\<close> tells which
  semantics the store has. Every request may fail: \<open>fault w n op\<close> is the error with
  which the store answers \<open>op\<close> when it is the \<open>n\<close>-th request, if it does.

  A hash is the list of its fields in enumeration order, each once and with its count
  (\<open>hincr\<close> keeps it so). The
  time-to-live is recorded as an attribute of the key; the passing of time, and with it
  the removal of an expired key, is not part of the model. \<open>clock w n\<close> is the local
  date at the \<open>n\<close>-th reading of the clock (\<open>new Date()\<close>).
\<close>

datatype error = Error string

datatype store_op =
    Expire string int
  | HIncrBy string string int
  | HGetAll string

datatype stream = Stdout | Stderr

record world =
  hashes :: "string \<rightharpoonup> (string \<times> int) list"
  ttls :: "string \<rightharpoonup> int"
  expire_needs_key :: bool
  requests :: "store_op list"
  fault :: "nat \<Rightarrow> store_op \<Rightarrow> error option"
  clock :: "nat \<Rightarrow> local_date"
  ticks :: nat
  console :: "(stream \<times> string \<times> error) list"

text \<open>
  An asynchronous computation runs in a world and either rejects with an error or
  resolves with a value. \<open>await\<close> is the sequencing of \<open>await\<close> inside an \<open>async\<close>
  function, \<open>try_catch\<close> its \<open>try { ... } catch (error) { ... }\<close>.
\<close>

type_synonym 'a io = "world \<Rightarrow> (error + 'a) \<times> world"

definition return_io :: "'a \<Rightarrow> 'a io" where
  "return_io v w = (Inr v, w)"

definition throw_io :: "error \<Rightarrow> 'a io" where
  "throw_io e w = (Inl e, w)"

definition await :: "'a io \<Rightarrow> ('a \<Rightarrow> 'b io) \<Rightarrow> 'b io" where
  "await m f w = (case m w of (Inl e, w1) \<Rightarrow> (Inl e, w1) | (Inr v, w1) \<Rightarrow> f v w1)"

definition try_catch :: "'a io \<Rightarrow> (error \<Rightarrow> 'a io) \<Rightarrow> 'a io" where
  "try_catch m handler w = (case m w of (Inl e, w1) \<Rightarrow> handler e w1 | (Inr v, w1) \<Rightarrow> (Inr v, w1))"

definition sync :: "(world \<Rightarrow> 'a \<times> world) \<Rightarrow> 'a io" where
  "sync f w = (case f w of (v, w1) \<Rightarrow> (Inr v, w1))"

definition console_error :: "string \<Rightarrow> error \<Rightarrow> unit io" where
  "console_error msg e w = (Inr (), w\<lparr>console := console w @ [(Stderr, msg, e)]\<rparr>)"

definition console_log :: "string \<Rightarrow> error \<Rightarrow> unit io" where
  "console_log msg e w = (Inr (), w\<lparr>console := console w @ [(Stdout, msg, e)]\<rparr>)"

definition new_Date :: "world \<Rightarrow> local_date \<times> world" where
  "new_Date w = (clock w (ticks w), w\<lparr>ticks := Suc (ticks w)\<rparr>)"

text \<open>A request is recorded, then fails or takes effect.\<close>

definition request :: "store_op \<Rightarrow> (world \<Rightarrow> 'a \<times> world) \<Rightarrow> 'a io" where
  "request op effect w =
     (let w1 = w\<lparr>requests := requests w @ [op]\<rparr>
      in case fault w (length (requests w)) op of
           Some e \<Rightarrow> (Inl e, w1)
         | None \<Rightarrow> sync effect w1)"

definition redis_expire :: "string \<Rightarrow> int \<Rightarrow> int io" where
  "redis_expire key seconds =
     request (Expire key seconds)
       (\<lambda>w. if hashes w key = None \<and> expire_needs_key w then (0, w)
            else (1, w\<lparr>ttls := (ttls w)(key \<mapsto> seconds)\<rparr>))"

fun hincr :: "string \<Rightarrow> int \<Rightarrow> (string \<times> int) list \<Rightarrow> (string \<times> int) list" where
  "hincr field increment [] = [(field, increment)]"
| "hincr field increment ((f, c) # h) =
     (if f = field then (f, c + increment) # h else (f, c) # hincr field increment h)"

definition hash_of :: "world \<Rightarrow> string \<Rightarrow> (string \<times> int) list" where
  "hash_of w key = (case hashes w key of None \<Rightarrow> [] | Some h \<Rightarrow> h)"

definition count_of :: "world \<Rightarrow> string \<Rightarrow> string \<Rightarrow> int" where
  "count_of w key field = (case map_of (hash_of w key) field of None \<Rightarrow> 0 | Some c \<Rightarrow> c)"

definition redis_hincrby :: "string \<Rightarrow> string \<Rightarrow> int \<Rightarrow> int io" where
  "redis_hincrby key field increment =
     request (HIncrBy key field increment)
       (\<lambda>w. (count_of w key field + increment,
             w\<lparr>hashes := (hashes w)(key \<mapsto> hincr field increment (hash_of w key))\<rparr>))"

definition redis_hgetall :: "string \<Rightarrow> (string \<times> string) list option io" where
  "redis_hgetall key =
     request (HGetAll key)
       (\<lambda>w. (map_option (map (\<lambda>(f, c). (f, show_int c))) (hashes w key), w))"

subsection \<open>Promise.all and Array.prototype.sort\<close>

text \<open>
  Modelled from the spec ("issue one retrieve call per date concurrently; await all",
  "fail-fast on first rejection"). A call of an \<open>async\<close> function runs up to its first
  \<open>await\<close>; the promise it returns is the rest of the computation, which runs when the
  awaited answer arrives and then settles the promise. \<open>Promise_all\<close> takes the order
  in which the promises settle, as a list of indices: each promise settles once, those
  the list does not name settle last, in index order. The promises settle one after
  the other. At the first that rejects, \<open>Promise_all\<close> rejects with its error, in the
  world of that moment: the promises still pending settle after the caller has gone on
  and are no part of the caller's result. When all are fulfilled it resolves with their
  values in index order.
\<close>

primrec first_rejection :: "(error + 'a) list \<Rightarrow> error option" where
  "first_rejection [] = None"
| "first_rejection (p # ps) = (case p of Inl e \<Rightarrow> Some e | Inr v \<Rightarrow> first_rejection ps)"

fun first_occurrences :: "nat list \<Rightarrow> nat list" where
  "first_occurrences [] = []"
| "first_occurrences (i # order) = i # first_occurrences (filter (\<lambda>j. j \<noteq> i) order)"

definition settle_order :: "nat list \<Rightarrow> nat \<Rightarrow> nat list" where
  "settle_order settled n = first_occurrences (filter (\<lambda>i. i < n) settled @ [0..<n])"

fun settle_in_order ::
  "nat list \<Rightarrow> 'a io list \<Rightarrow> 'a option list \<Rightarrow> world \<Rightarrow> (error + 'a option list) \<times> world" where
  "settle_in_order [] promises values w = (Inr values, w)"
| "settle_in_order (i # order) promises values w =
     (case (promises ! i) w of
        (Inl e, w1) \<Rightarrow> (Inl e, w1)
      | (Inr v, w1) \<Rightarrow> settle_in_order order promises (values[i := Some v]) w1)"

definition Promise_all :: "nat list \<Rightarrow> 'a io list \<Rightarrow> 'a list io" where
  "Promise_all settled promises =
     await (settle_in_order (settle_order settled (length promises)) promises
              (replicate (length promises) None))
       (\<lambda>values. return_io (List.map_filter (\<lambda>v. v) values))"

text \<open>
  \<open>xs.sort(compareFn)\<close>: an element goes after another when \<open>compareFn\<close> of the other
  and the element is positive. Where the comparator is not a consistent order the
  result is left to the implementation; the model is the stable insertion sort.
\<close>

fun insert_sorted :: "('a \<Rightarrow> 'a \<Rightarrow> int) \<Rightarrow> 'a \<Rightarrow> 'a list \<Rightarrow> 'a list" where
  "insert_sorted compareFn x [] = [x]"
| "insert_sorted compareFn x (y # ys) =
     (if 0 < compareFn y x then x # y # ys else y # insert_sorted compareFn x ys)"

definition sort_js :: "('a \<Rightarrow> 'a \<Rightarrow> int) \<Rightarrow> 'a list \<Rightarrow> 'a list" where
  "sort_js compareFn xs = foldl (\<lambda>sorted x. insert_sorted compareFn x sorted) [] xs"

subsection \<open>The helper getDate\<close>

text \<open>
  \<open>getDate(sub = 0)\<close> reads the clock, goes \<open>sub\<close> days back and formats the day.
  Its callers pass nothing or a loop index, so \<open>sub\<close> is a natural number here.
\<close>

definition getDate :: "nat option \<Rightarrow> world \<Rightarrow> string \<times> world" where
  "getDate sub w =
     (case new_Date w of
        (now, w1) \<Rightarrow>
          (let dateXDaysAgo = subDays now (case sub of None \<Rightarrow> 0 | Some n \<Rightarrow> n)
           in (format_ddMMyyyy dateXDaysAgo, w1)))"

subsection \<open>The class Insyte\<close>

record InsyteOpts =
  opts_retention :: int

record Insyte =
  retention :: int

text \<open>
  The constructor: \<open>if (opts?.retention) this.retention = opts.retention\<close> over the
  field's initial value \<open>60 * 60 * 24 * 7\<close>. A number is truthy unless it is zero.
\<close>

definition new_Insyte :: "InsyteOpts option \<Rightarrow> Insyte" where
  "new_Insyte opts =
     (let this = \<lparr>retention = 60 * 60 * 24 * 7\<rparr>
      in case opts of
           None \<Rightarrow> this
         | Some opts \<Rightarrow>
             if opts_retention opts \<noteq> 0 then this\<lparr>retention := opts_retention opts\<rparr> else this)"

definition track :: "Insyte \<Rightarrow> string \<Rightarrow> json \<Rightarrow> bool \<Rightarrow> unit io" where
  "track this name event persist =
     try_catch
       (let key = ''insyte::'' @ name;
            field = JSON_stringify [(''event'', event)]
        in await
             (if \<not> persist
              then await (sync (getDate None))
                     (\<lambda>today. let key = key @ ''::'' @ today
                              in await (redis_expire key (retention this)) (\<lambda>_. return_io key))
              else return_io key)
             (\<lambda>key. await (redis_hincrby key field 1) (\<lambda>_. return_io ())))
       (\<lambda>error. await (console_error ''Failed to track event in Insyte:'' error)
                  (\<lambda>_. throw_io error))"

text \<open>
  A retrieve result: the date, and one entry per hash field, each entry an object with
  the field as its only property.
\<close>

record InsyteRetrieveResult =
  date :: string
  event :: "(string \<times> number) list list"

definition retrieve :: "string \<Rightarrow> string \<Rightarrow> InsyteRetrieveResult io" where
  "retrieve name dt =
     try_catch
       (let key = ''insyte::'' @ name @ ''::'' @ dt
        in await (redis_hgetall key)
             (\<lambda>data. return_io
                \<lparr>date = dt,
                 event = map (\<lambda>(key, value). [(key, Number value)])
                           (Object_entries (case data of None \<Rightarrow> [] | Some record \<Rightarrow> record))\<rparr>))
       (\<lambda>error. await (console_error ''Failed to retrieve data from Insyte:'' error)
                  (\<lambda>_. throw_io error))"

text \<open>
  The same function cut at its \<open>await\<close>, for a caller that does not await it at once:
  \<open>retrieve_start\<close> is the call, which sends the request and returns the promise, and
  \<open>retrieve_resume\<close> is that promise, the rest of \<open>retrieve\<close> from the answer on.
\<close>

definition retrieve_resume ::
  "string \<Rightarrow> error + (string \<times> string) list option \<Rightarrow> InsyteRetrieveResult io" where
  "retrieve_resume dt answer =
     try_catch
       (await (\<lambda>w. (answer, w))
          (\<lambda>data. return_io
             \<lparr>date = dt,
              event = map (\<lambda>(key, value). [(key, Number value)])
                        (Object_entries (case data of None \<Rightarrow> [] | Some record \<Rightarrow> record))\<rparr>))
       (\<lambda>error. await (console_error ''Failed to retrieve data from Insyte:'' error)
                  (\<lambda>_. throw_io error))"

definition retrieve_start :: "string \<Rightarrow> string \<Rightarrow> world \<Rightarrow> InsyteRetrieveResult io \<times> world" where
  "retrieve_start name dt w =
     (let key = ''insyte::'' @ name @ ''::'' @ dt
      in case redis_hgetall key w of (answer, w1) \<Rightarrow> (retrieve_resume dt answer, w1))"

text \<open>
  The loop of \<open>retrieveDays\<close>: \<open>for (let i = 0; i < nDays; i++)\<close>. Each round reads the
  date, calls \<open>retrieve\<close>, which sends its request, and pushes the promise.
\<close>

function retrieveDays_loop ::
  "string \<Rightarrow> int \<Rightarrow> nat \<Rightarrow> InsyteRetrieveResult io list \<Rightarrow> world
     \<Rightarrow> InsyteRetrieveResult io list \<times> world" where
  "retrieveDays_loop name nDays i promises w =
     (if int i < nDays
      then (case getDate (Some i) w of
              (dt, w1) \<Rightarrow>
                (case retrieve_start name dt w1 of
                   (promise, w2) \<Rightarrow> retrieveDays_loop name nDays (Suc i) (promises @ [promise]) w2))
      else (promises, w))"
  by pat_completeness auto
termination
  by (relation "measure (\<lambda>(name, nDays, i, promises, w). nat (nDays - int i))") auto

declare retrieveDays_loop.simps [simp del]

text \<open>
  The comparator of the sort: \<open>parse(a.date) > parse(b.date) ? 1 : -1\<close>. A comparison
  with an Invalid Date is false.
\<close>

definition compare_dates :: "InsyteRetrieveResult \<Rightarrow> InsyteRetrieveResult \<Rightarrow> int" where
  "compare_dates a b =
     (if (case (parse_ddMMyyyy (date a), parse_ddMMyyyy (date b)) of
            (Some x, Some y) \<Rightarrow> date_gt x y
          | _ \<Rightarrow> False)
      then 1 else - 1)"

text \<open>
  \<open>retrieveDays({name, nDays = 1})\<close>; \<open>settled\<close> is the order in which the per-day
  promises settle.
\<close>

definition retrieveDays :: "string \<Rightarrow> int option \<Rightarrow> nat list \<Rightarrow> InsyteRetrieveResult list io" where
  "retrieveDays name nDays settled w =
     (case retrieveDays_loop name (case nDays of None \<Rightarrow> 1 | Some n \<Rightarrow> n) 0 [] w of
        (promises, w1) \<Rightarrow>
          try_catch
            (await (Promise_all settled promises)
               (\<lambda>resolvedData. return_io (sort_js compare_dates resolvedData)))
            (\<lambda>error. await (console_log ''Failed to retrieve Days from Insyte:'' error)
                       (\<lambda>_. throw_io error))
            w1)"

subsection \<open>The rounds of the loop\<close>

text \<open>
  Names for what round \<open>j\<close> of the loop does when the loop starts in world \<open>w\<close> with
  index \<open>i\<close>: the date it computes, the request it sends, the store's answer, the
  promise it pushes and the value of that promise when the answer is a hash. They serve
  to state the loop's result in closed form.
\<close>

definition day_date :: "world \<Rightarrow> nat \<Rightarrow> nat \<Rightarrow> string" where
  "day_date w i j = format_ddMMyyyy (subDays (clock w (ticks w + j)) (i + j))"

definition day_request :: "string \<Rightarrow> world \<Rightarrow> nat \<Rightarrow> nat \<Rightarrow> store_op" where
  "day_request name w i j = HGetAll (''insyte::'' @ name @ ''::'' @ day_date w i j)"

definition day_answer ::
  "string \<Rightarrow> world \<Rightarrow> nat \<Rightarrow> nat \<Rightarrow> error + (string \<times> string) list option" where
  "day_answer name w i j =
     (case fault w (length (requests w) + j) (day_request name w i j) of
        Some e \<Rightarrow> Inl e
      | None \<Rightarrow>
          Inr (map_option (map (\<lambda>(f, c). (f, show_int c)))
                 (hashes w (''insyte::'' @ name @ ''::'' @ day_date w i j))))"

definition day_promise :: "string \<Rightarrow> world \<Rightarrow> nat \<Rightarrow> nat \<Rightarrow> InsyteRetrieveResult io" where
  "day_promise name w i j = retrieve_resume (day_date w i j) (day_answer name w i j)"

definition day_value :: "string \<Rightarrow> world \<Rightarrow> nat \<Rightarrow> nat \<Rightarrow> InsyteRetrieveResult" where
  "day_value name w i j =
     \<lparr>date = day_date w i j,
      event = map (\<lambda>(key, value). [(key, Number value)])
                (Object_entries
                   (map (\<lambda>(f, c). (f, show_int c))
                      (hash_of w (''insyte::'' @ name @ ''::'' @ day_date w i j))))\<rparr>"

subsection \<open>Example data\<close>

text \<open>
  An empty store with the semantics of Redis, no failing request, and a clock that
  stands at 1 January 2024; and the event \<open>{page: '/'}\<close>.
\<close>

definition example_world :: world where
  "example_world =
     \<lparr>hashes = Map.empty, ttls = Map.empty, expire_needs_key = True, requests = [],
      fault = (\<lambda>n op. None), clock = (\<lambda>n. \<lparr>year = 2024, month = 1, day = 1\<rparr>),
      ticks = 0, console = []\<rparr>"

definition page_view :: json where
  "page_view = JObj [(''page'', JStr ''/'')]"



definition year_one_world :: world where
  "year_one_world = example_world\<lparr>clock := (\<lambda>n. \<lparr>year = 1, month = 1, day = 2\<rparr>)\<rparr>"

section \<open>Properties\<close>

subsection \<open>Decimal numerals are read back\<close>

lemma is_digit_digit_char: "d < 10 \<Longrightarrow> is_digit (digit_char d)"
  by (simp add: is_digit_def digit_char_def)

lemma digit_val_digit_char: "d < 10 \<Longrightarrow> digit_val (digit_char d) = d"
  by (simp add: digit_val_def digit_char_def)

lemma show_nat_digits: "list_all is_digit (show_nat n)"
  by (induction n rule: show_nat.induct) (subst show_nat.simps, simp add: is_digit_digit_char)

lemma show_nat_nonempty: "show_nat n \<noteq> []"
  by (subst show_nat.simps) simp

lemma foldl_show_nat: "foldl (\<lambda>a c. 10 * a + digit_val c) 0 (show_nat n) = n"
  by (induction n rule: show_nat.induct) (subst show_nat.simps, simp add: digit_val_digit_char)

lemma read_nat_show_nat: "read_nat (show_nat n) = Some n"
  by (simp add: read_nat_def show_nat_digits show_nat_nonempty foldl_show_nat)





lemma not_digit_minus: "\<not> is_digit CHR ''-''"
  by (simp add: is_digit_def)

lemma read_int_show_int: "read_int (show_int i) = Some i"
proof (cases "i < 0")
  case True
  then show ?thesis
    by (simp add: read_int_def show_int_def read_nat_show_nat)
next
  case False
  obtain c r where cr: "show_nat (nat i) = c # r"
    using show_nat_nonempty [of "nat i"] by (cases "show_nat (nat i)") auto
  with show_nat_digits [of "nat i"] have "is_digit c" by simp
  then have "c \<noteq> CHR ''-''" using not_digit_minus by auto
  with False cr read_nat_show_nat [of "nat i"] show ?thesis
    by (simp add: read_int_def show_int_def)
qed

lemma bit_length_le: "n < 2 ^ k \<Longrightarrow> bit_length n \<le> k"
proof (induction k arbitrary: n)
  case 0
  then show ?case by (subst bit_length.simps) simp
next
  case (Suc k)
  then have "n div 2 < 2 ^ k" by simp
  then have "bit_length (n div 2) \<le> k" by (rule Suc.IH)
  then show ?case by (subst bit_length.simps) simp
qed

lemma round_to_double_small: "n < 2 ^ 53 \<Longrightarrow> round_to_double n = n"
  using bit_length_le [of n 53] by (simp add: round_to_double_def)

lemma number_of_int_safe:
  assumes "\<bar>i\<bar> < 2 ^ 53"
  shows "number_of_int i = Num i"
proof -
  have small: "nat \<bar>i\<bar> < 2 ^ 53"
    using assms by (simp add: nat_less_iff)
  then have "bit_length (nat \<bar>i\<bar>) \<le> 53"
    by (rule bit_length_le)
  then show ?thesis
    using small by (simp add: number_of_int_def round_to_double_small Let_def)
qed

lemma Number_show_int: "Number (show_int i) = number_of_int i"
  by (simp add: Number_def read_int_show_int)

lemma Number_show_int_safe: "\<bar>i\<bar> < 2 ^ 53 \<Longrightarrow> Number (show_int i) = Num i"
  by (simp only: Number_show_int number_of_int_safe)

subsection \<open>Object.entries keeps the properties\<close>

lemma mset_Object_entries: "mset (Object_entries obj) = mset obj"
  by (simp add: Object_entries_def)

lemma Object_entries_no_index:
  "\<forall>p\<in>set obj. \<not> is_array_index (fst p) \<Longrightarrow> Object_entries obj = obj"
  by (simp add: Object_entries_def filter_empty_conv)

subsection \<open>The calendar\<close>

lemma daysInMonth_bounds: "28 \<le> daysInMonth y m \<and> daysInMonth y m \<le> 31"
  by (simp add: daysInMonth_def)

lemma valid_prev_day:
  assumes "valid_date d"
  shows "valid_date (prev_day d)"
proof (cases "1 < day d")
  case True
  with assms show ?thesis
    by (auto simp: valid_date_def prev_day_def)
next
  case False
  show ?thesis
  proof (cases "1 < month d")
    case True
    with False assms daysInMonth_bounds [of "year d" "month d - 1"] show ?thesis
      by (auto simp: valid_date_def prev_day_def)
  next
    case False
    with \<open>\<not> 1 < day d\<close> show ?thesis
      by (simp add: valid_date_def prev_day_def daysInMonth_def)
  qed
qed

lemma date_gt_prev_day: "valid_date d \<Longrightarrow> date_gt d (prev_day d)"
  by (simp add: valid_date_def prev_day_def date_gt_def)

lemma date_gt_trans: "date_gt a b \<Longrightarrow> date_gt b c \<Longrightarrow> date_gt a c"
  by (auto simp: date_gt_def)

lemma date_gt_year: "date_gt a b \<Longrightarrow> year b \<le> year a"
  by (auto simp: date_gt_def)

lemma valid_subDays: "valid_date d \<Longrightarrow> valid_date (subDays d n)"
  by (induction n) (simp_all add: valid_prev_day)

lemma date_gt_subDays: "valid_date d \<Longrightarrow> i < j \<Longrightarrow> date_gt (subDays d i) (subDays d j)"
proof (induction j)
  case 0
  then show ?case by simp
next
  case (Suc j)
  have step: "date_gt (subDays d j) (subDays d (Suc j))"
    using Suc.prems(1) by (simp add: date_gt_prev_day valid_subDays)
  show ?case
  proof (cases "i = j")
    case True
    with step show ?thesis by simp
  next
    case False
    with Suc.prems have "i < j" by simp
    with Suc.IH Suc.prems(1) have "date_gt (subDays d i) (subDays d j)" by simp
    then show ?thesis using step by (rule date_gt_trans)
  qed
qed

lemma year_subDays_mono: "valid_date d \<Longrightarrow> i \<le> j \<Longrightarrow> year (subDays d j) \<le> year (subDays d i)"
  using date_gt_subDays [of d i j] date_gt_year [of "subDays d i" "subDays d j"]
  by (cases "i = j") auto






subsection \<open>What one call does\<close>

lemma getDate_None: "getDate None w = (format_ddMMyyyy (clock w (ticks w)), w\<lparr>ticks := Suc (ticks w)\<rparr>)"
  by (simp add: getDate_def new_Date_def)

lemma track_persist_eq:
  "track this name ev True w =
     (let key = ''insyte::'' @ name; field = JSON_stringify [(''event'', ev)];
          w1 = w\<lparr>requests := requests w @ [HIncrBy key field 1]\<rparr>
      in case fault w (length (requests w)) (HIncrBy key field 1) of
           Some e \<Rightarrow> (Inl e, w1\<lparr>console := console w @ [(Stderr, ''Failed to track event in Insyte:'', e)]\<rparr>)
         | None \<Rightarrow> (Inr (), w1\<lparr>hashes := (hashes w)(key \<mapsto> hincr field 1 (hash_of w key))\<rparr>))"
  by (simp add: track_def try_catch_def await_def return_io_def redis_hincrby_def request_def
      sync_def console_error_def throw_io_def hash_of_def Let_def split: option.splits)

lemma track_ephemeral_eq:
  "track this name ev False w =
     (let key = ''insyte::'' @ name @ ''::'' @ format_ddMMyyyy (clock w (ticks w));
          field = JSON_stringify [(''event'', ev)];
          w1 = w\<lparr>ticks := Suc (ticks w), requests := requests w @ [Expire key (retention this)]\<rparr>
      in case fault w (length (requests w)) (Expire key (retention this)) of
           Some e \<Rightarrow> (Inl e, w1\<lparr>console := console w @ [(Stderr, ''Failed to track event in Insyte:'', e)]\<rparr>)
         | None \<Rightarrow>
            (let w2 = (if hashes w key = None \<and> expire_needs_key w then w1
                       else w1\<lparr>ttls := (ttls w)(key \<mapsto> retention this)\<rparr>);
                 w3 = w2\<lparr>requests := requests w @ [Expire key (retention this), HIncrBy key field 1]\<rparr>
             in case fault w (Suc (length (requests w))) (HIncrBy key field 1) of
                  Some e \<Rightarrow> (Inl e, w3\<lparr>console := console w @ [(Stderr, ''Failed to track event in Insyte:'', e)]\<rparr>)
                | None \<Rightarrow> (Inr (), w3\<lparr>hashes := (hashes w)(key \<mapsto> hincr field 1 (hash_of w key))\<rparr>)))"
  by (simp add: track_def try_catch_def await_def return_io_def redis_hincrby_def request_def
      sync_def console_error_def throw_io_def hash_of_def Let_def getDate_None redis_expire_def split: option.splits)

lemma map_of_hincr:
  "map_of (hincr f n h) g =
     (if g = f then Some (case map_of h f of None \<Rightarrow> n | Some c \<Rightarrow> c + n) else map_of h g)"
  by (induction h) auto

lemma map_fst_hincr:
  "map fst (hincr f n h) = (if f \<in> fst ` set h then map fst h else map fst h @ [f])"
  by (induction h) (auto simp: rev_image_eqI)

lemma count_of_hincr:
  "count_of (w\<lparr>hashes := (hashes w)(key \<mapsto> hincr f n (hash_of w key))\<rparr>) key g =
     (if g = f then count_of w key f + n else count_of w key g)"
  by (simp add: count_of_def hash_of_def map_of_hincr split: option.splits)

lemma track_persist_requests:
  "requests (snd (track this name ev True w)) =
     requests w @ [HIncrBy (''insyte::'' @ name) (JSON_stringify [(''event'', ev)]) 1]"
  by (simp add: track_persist_eq Let_def split: option.splits)

lemma track_persist_ttls: "ttls (snd (track this name ev True w)) = ttls w"
  by (simp add: track_persist_eq Let_def split: option.splits)

lemma track_persist_fault: "fault (snd (track this name ev True w)) = fault w"
  by (simp add: track_persist_eq Let_def split: option.splits)

lemma track_persist_other_keys:
  "k \<noteq> ''insyte::'' @ name \<Longrightarrow> hashes (snd (track this name ev True w)) k = hashes w k"
  by (simp add: track_persist_eq Let_def split: option.splits)

lemma track_persist_other_fields:
  "f \<noteq> JSON_stringify [(''event'', ev)] \<Longrightarrow>
   count_of (snd (track this name ev True w)) (''insyte::'' @ name) f = count_of w (''insyte::'' @ name) f"
  by (simp add: track_persist_eq Let_def count_of_def hash_of_def map_of_hincr split: option.splits)

lemma track_persist_count:
  "fst (track this name ev True w) = Inr () \<Longrightarrow>
   count_of (snd (track this name ev True w)) (''insyte::'' @ name) (JSON_stringify [(''event'', ev)]) =
     count_of w (''insyte::'' @ name) (JSON_stringify [(''event'', ev)]) + 1"
  by (simp add: track_persist_eq Let_def count_of_def hash_of_def map_of_hincr split: option.splits)

lemma track_persist_resolves:
  "fault w (length (requests w)) (HIncrBy (''insyte::'' @ name) (JSON_stringify [(''event'', ev)]) 1) = None \<Longrightarrow>
   fst (track this name ev True w) = Inr ()"
  by (simp add: track_persist_eq Let_def)

lemma retrieve_resume_eq:
  "retrieve_resume dt answer w =
     (case answer of
        Inl e \<Rightarrow> (Inl e, w\<lparr>console := console w @ [(Stderr, ''Failed to retrieve data from Insyte:'', e)]\<rparr>)
      | Inr data \<Rightarrow>
          (Inr \<lparr>date = dt,
                event = map (\<lambda>(key, value). [(key, Number value)])
                          (Object_entries (case data of None \<Rightarrow> [] | Some record \<Rightarrow> record))\<rparr>, w))"
  by (simp add: retrieve_resume_def try_catch_def await_def return_io_def console_error_def
      throw_io_def split: sum.splits)

lemma retrieve_split:
  "retrieve name dt w = (case retrieve_start name dt w of (promise, w1) \<Rightarrow> promise w1)"
  by (simp add: retrieve_def retrieve_start_def retrieve_resume_def try_catch_def await_def
      Let_def split: prod.splits sum.splits)

lemma retrieve_eq:
  "retrieve name dt w =
     (let key = ''insyte::'' @ name @ ''::'' @ dt;
          w1 = w\<lparr>requests := requests w @ [HGetAll key]\<rparr>
      in case fault w (length (requests w)) (HGetAll key) of
           Some e \<Rightarrow>
             (Inl e, w1\<lparr>console := console w @ [(Stderr, ''Failed to retrieve data from Insyte:'', e)]\<rparr>)
         | None \<Rightarrow>
             (Inr \<lparr>date = dt,
                   event = map (\<lambda>(key, value). [(key, Number value)])
                             (Object_entries
                                (map (\<lambda>(f, c). (f, show_int c)) (hash_of w key)))\<rparr>, w1))"
  by (simp add: retrieve_def try_catch_def await_def return_io_def redis_hgetall_def request_def
      sync_def console_error_def throw_io_def hash_of_def Let_def
      split: option.splits)

subsection \<open>The example world\<close>

lemma format_example: "format_ddMMyyyy \<lparr>year = 2024, month = 1, day = 1\<rparr> = ''01/01/2024''"
  by code_simp

lemma page_view_field:
  \<open>JSON_stringify [(''event'', page_view)] = ''{"event":{"page":"/"}}''\<close>
  by (simp add: JSON_stringify_def page_view_def quote_def escape_char_def)

lemma stringify_example:
  \<open>JSON_stringify
     [(''event'', JObj [(''page'', JStr ''/''), (''country'', JUndefined),
                       (''n'', JArr [JNum (- 12), JNull, JBool True])])] =
   ''{"event":{"page":"/","n":[-12,null,true]}}''\<close>
  by code_simp

lemma example_world_fault: "fault example_world = (\<lambda>n op. None)"
  by (simp add: example_world_def)

lemma example_world_today:
  "format_ddMMyyyy (clock example_world (ticks example_world)) = ''01/01/2024''"
proof -
  have "clock example_world (ticks example_world) = \<lparr>year = 2024, month = 1, day = 1\<rparr>"
    by (simp add: example_world_def)
  then show ?thesis
    by (simp only: format_example)
qed

subsection \<open>Persisted events\<close>

lemma track_persist_times_requests:
  "requests (((\<lambda>w. snd (track this name ev True w)) ^^ n) w) =
     requests w @ replicate n (HIncrBy (''insyte::'' @ name) (JSON_stringify [(''event'', ev)]) 1)"
  by (induction n) (simp_all add: track_persist_requests replicate_append_same)

lemma track_persist_times_ttls:
  "ttls (((\<lambda>w. snd (track this name ev True w)) ^^ n) w) = ttls w"
  by (induction n) (simp_all add: track_persist_ttls)

lemma track_persist_times_fault:
  "fault (((\<lambda>w. snd (track this name ev True w)) ^^ n) w) = fault w"
  by (induction n) (simp_all add: track_persist_fault)

lemma track_persist_times_count:
  "\<forall>i op. fault w i op = None \<Longrightarrow>
   count_of (((\<lambda>w. snd (track this name ev True w)) ^^ n) w) (''insyte::'' @ name)
       (JSON_stringify [(''event'', ev)]) =
     count_of w (''insyte::'' @ name) (JSON_stringify [(''event'', ev)]) + int n"
proof (induction n)
  case 0
  show ?case by simp
next
  case (Suc n)
  let ?wn = "((\<lambda>w. snd (track this name ev True w)) ^^ n) w"
  have "fst (track this name ev True ?wn) = Inr ()"
    by (rule track_persist_resolves) (simp add: track_persist_times_fault Suc.prems)
  then have "count_of (snd (track this name ev True ?wn)) (''insyte::'' @ name)
       (JSON_stringify [(''event'', ev)]) =
     count_of ?wn (''insyte::'' @ name) (JSON_stringify [(''event'', ev)]) + 1"
    by (rule track_persist_count)
  also have "count_of ?wn (''insyte::'' @ name) (JSON_stringify [(''event'', ev)]) =
     count_of w (''insyte::'' @ name) (JSON_stringify [(''event'', ev)]) + int n"
    by (rule Suc.IH [OF Suc.prems])
  finally show ?case
    by simp
qed

text \<open>
  C4: \<open>track\<close> with \<open>persist = true\<close> issues no expiry call. Its only request is the
  increment of the event's field under \<open>insyte::<name>\<close>; no time-to-live changes, no
  other key and no other field changes, a call that resolves adds one to the count, and
  \<open>n\<close> calls in a row issue \<open>n\<close> increments and nothing else, adding \<open>n\<close> to the
  count when no request fails.
\<close>

theorem track_persist_never_expires:
  "let key = ''insyte::'' @ name;
       field = JSON_stringify [(''event'', ev)];
       w1 = snd (track this name ev True w);
       wn = ((\<lambda>w. snd (track this name ev True w)) ^^ n) w
   in requests w1 = requests w @ [HIncrBy key field 1]
      \<and> ttls w1 = ttls w
      \<and> (\<forall>k. k \<noteq> key \<longrightarrow> hashes w1 k = hashes w k)
      \<and> (\<forall>f. f \<noteq> field \<longrightarrow> count_of w1 key f = count_of w key f)
      \<and> (fst (track this name ev True w) = Inr () \<longrightarrow> count_of w1 key field = count_of w key field + 1)
      \<and> requests wn = requests w @ replicate n (HIncrBy key field 1)
      \<and> ttls wn = ttls w
      \<and> ((\<forall>i op. fault w i op = None) \<longrightarrow> count_of wn key field = count_of w key field + int n)"
proof -
  have "\<forall>k. k \<noteq> ''insyte::'' @ name \<longrightarrow>
          hashes (snd (track this name ev True w)) k = hashes w k"
    using track_persist_other_keys by blast
  moreover have "\<forall>f. f \<noteq> JSON_stringify [(''event'', ev)] \<longrightarrow>
      count_of (snd (track this name ev True w)) (''insyte::'' @ name) f =
        count_of w (''insyte::'' @ name) f"
    using track_persist_other_fields by blast
  moreover note track_persist_requests [of this name ev w] track_persist_ttls [of this name ev w]
    track_persist_count [of this name ev w] track_persist_times_requests [of n this name ev w]
    track_persist_times_ttls [of n this name ev w] track_persist_times_count [of w n this name ev]
  ultimately show ?thesis
    unfolding Let_def by (intro conjI impI) assumption+
qed

theorem track_persist_never_expires_witness:
  "(\<forall>i op. fault example_world i op = None)
   \<and> fst (track (new_Insyte None) ''page-view'' page_view True example_world) = Inr ()
   \<and> count_of (snd (track (new_Insyte None) ''page-view'' page_view True example_world))
        ''insyte::page-view'' (JSON_stringify [(''event'', page_view)]) = 1
   \<and> count_of (((\<lambda>w. snd (track (new_Insyte None) ''page-view'' page_view True w)) ^^ 3) example_world)
        ''insyte::page-view'' (JSON_stringify [(''event'', page_view)]) = 3
   \<and> ttls (((\<lambda>w. snd (track (new_Insyte None) ''page-view'' page_view True w)) ^^ 3) example_world)
        ''insyte::page-view'' = None
   \<and> ''insyte::other'' \<noteq> ''insyte::'' @ ''page-view''
   \<and> hashes (snd (track (new_Insyte None) ''page-view'' page_view True example_world))
        ''insyte::other'' = None
   \<and> ''other'' \<noteq> JSON_stringify [(''event'', page_view)]
   \<and> count_of (snd (track (new_Insyte None) ''page-view'' page_view True example_world))
        ''insyte::page-view'' ''other'' = 0"
proof -
  have nofault: "\<forall>i op. fault example_world i op = None"
    by (simp add: example_world_def)
  have ok: "fst (track (new_Insyte None) ''page-view'' page_view True example_world) = Inr ()"
    by (rule track_persist_resolves) (simp add: example_world_def)
  have zero: "count_of example_world ''insyte::page-view'' (JSON_stringify [(''event'', page_view)]) = 0"
    by (simp add: count_of_def hash_of_def example_world_def)
  have nottl: "ttls example_world ''insyte::page-view'' = None"
    by (simp add: example_world_def)
  have other: "hashes example_world ''insyte::other'' = None"
      "count_of example_world ''insyte::page-view'' ''other'' = 0"
    by (simp_all add: count_of_def hash_of_def example_world_def)
  have field: "''other'' \<noteq> JSON_stringify [(''event'', page_view)]"
    by (simp add: page_view_field)
  show ?thesis
    using track_persist_never_expires [of "''page-view''" page_view "new_Insyte None" example_world 3]
      nofault ok zero nottl other field
    by (simp add: Let_def)
qed

subsection \<open>Ephemeral events\<close>

lemma track_ephemeral_requests:
  "requests (snd (track this name ev False w)) =
     requests w @
       (if fault w (length (requests w))
              (Expire (''insyte::'' @ name @ ''::'' @ format_ddMMyyyy (clock w (ticks w))) (retention this)) = None
        then [Expire (''insyte::'' @ name @ ''::'' @ format_ddMMyyyy (clock w (ticks w))) (retention this),
              HIncrBy (''insyte::'' @ name @ ''::'' @ format_ddMMyyyy (clock w (ticks w)))
                (JSON_stringify [(''event'', ev)]) 1]
        else [Expire (''insyte::'' @ name @ ''::'' @ format_ddMMyyyy (clock w (ticks w))) (retention this)])"
  by (simp add: track_ephemeral_eq Let_def split: option.splits)

lemma track_ephemeral_creates:
  "hashes w (''insyte::'' @ name @ ''::'' @ format_ddMMyyyy (clock w (ticks w))) = None \<Longrightarrow>
   fst (track this name ev False w) = Inr () \<Longrightarrow>
   hashes (snd (track this name ev False w)) (''insyte::'' @ name @ ''::'' @ format_ddMMyyyy (clock w (ticks w)))
     = Some [(JSON_stringify [(''event'', ev)], 1)]
   \<and> (expire_needs_key w \<longrightarrow> ttls (snd (track this name ev False w)) = ttls w)"
  by (simp add: track_ephemeral_eq Let_def hash_of_def split: option.splits)

lemma track_ephemeral_ttl_applied:
  "fault w (length (requests w))
      (Expire (''insyte::'' @ name @ ''::'' @ format_ddMMyyyy (clock w (ticks w))) (retention this)) = None \<Longrightarrow>
   hashes w (''insyte::'' @ name @ ''::'' @ format_ddMMyyyy (clock w (ticks w))) \<noteq> None \<or> \<not> expire_needs_key w \<Longrightarrow>
   ttls (snd (track this name ev False w)) (''insyte::'' @ name @ ''::'' @ format_ddMMyyyy (clock w (ticks w)))
     = Some (retention this)"
  by (auto simp add: track_ephemeral_eq Let_def split: option.splits)

lemma track_ephemeral_clock: "clock (snd (track this name ev False w)) = clock w"
  by (simp add: track_ephemeral_eq Let_def split: option.splits)

lemma track_ephemeral_ticks: "ticks (snd (track this name ev False w)) = Suc (ticks w)"
  by (simp add: track_ephemeral_eq Let_def split: option.splits)

lemma track_ephemeral_fault: "fault (snd (track this name ev False w)) = fault w"
  by (simp add: track_ephemeral_eq Let_def split: option.splits)

lemma track_ephemeral_resolved:
  "fst (track this name ev False w) = Inr () \<longleftrightarrow>
     fault w (length (requests w))
       (Expire (''insyte::'' @ name @ ''::'' @ format_ddMMyyyy (clock w (ticks w))) (retention this)) = None
     \<and> fault w (Suc (length (requests w)))
       (HIncrBy (''insyte::'' @ name @ ''::'' @ format_ddMMyyyy (clock w (ticks w)))
          (JSON_stringify [(''event'', ev)]) 1) = None"
  by (simp add: track_ephemeral_eq Let_def split: option.splits)

lemma track_ephemeral_hash:
  "fst (track this name ev False w) = Inr () \<Longrightarrow>
   hash_of (snd (track this name ev False w)) (''insyte::'' @ name @ ''::'' @ format_ddMMyyyy (clock w (ticks w))) =
     hincr (JSON_stringify [(''event'', ev)]) 1
       (hash_of w (''insyte::'' @ name @ ''::'' @ format_ddMMyyyy (clock w (ticks w))))"
  by (simp add: track_ephemeral_eq Let_def hash_of_def split: option.splits)

lemma track_ephemeral_count:
  "fst (track this name ev False w) = Inr () \<Longrightarrow>
   count_of (snd (track this name ev False w)) (''insyte::'' @ name @ ''::'' @ format_ddMMyyyy (clock w (ticks w))) f =
     (if f = JSON_stringify [(''event'', ev)]
      then count_of w (''insyte::'' @ name @ ''::'' @ format_ddMMyyyy (clock w (ticks w))) f + 1
      else count_of w (''insyte::'' @ name @ ''::'' @ format_ddMMyyyy (clock w (ticks w))) f)"
  unfolding count_of_def by (simp only: track_ephemeral_hash map_of_hincr) (simp split: option.splits)

lemma track_ephemeral_fields:
  "fst (track this name ev False w) = Inr () \<Longrightarrow>
   map fst (hash_of (snd (track this name ev False w)) (''insyte::'' @ name @ ''::'' @ format_ddMMyyyy (clock w (ticks w)))) =
     (if JSON_stringify [(''event'', ev)] \<in> fst ` set (hash_of w (''insyte::'' @ name @ ''::'' @ format_ddMMyyyy (clock w (ticks w))))
      then map fst (hash_of w (''insyte::'' @ name @ ''::'' @ format_ddMMyyyy (clock w (ticks w))))
      else map fst (hash_of w (''insyte::'' @ name @ ''::'' @ format_ddMMyyyy (clock w (ticks w)))) @ [JSON_stringify [(''event'', ev)]])"
  by (simp only: track_ephemeral_hash map_fst_hincr)

lemma track_ephemeral_has_field:
  "fst (track this name ev False w) = Inr () \<Longrightarrow>
   JSON_stringify [(''event'', ev)] \<in> fst ` set (hash_of (snd (track this name ev False w))
       (''insyte::'' @ name @ ''::'' @ format_ddMMyyyy (clock w (ticks w))))"
proof -
  assume ok: "fst (track this name ev False w) = Inr ()"
  have "JSON_stringify [(''event'', ev)] \<in> set (map fst (hash_of (snd (track this name ev False w))
       (''insyte::'' @ name @ ''::'' @ format_ddMMyyyy (clock w (ticks w)))))"
    unfolding track_ephemeral_fields [OF ok] by simp
  then show ?thesis by simp
qed

lemma track_ephemeral_hashes:
  "fst (track this name ev False w) = Inr () \<Longrightarrow>
   hashes (snd (track this name ev False w)) (''insyte::'' @ name @ ''::'' @ format_ddMMyyyy (clock w (ticks w))) =
     Some (hincr (JSON_stringify [(''event'', ev)]) 1
       (hash_of w (''insyte::'' @ name @ ''::'' @ format_ddMMyyyy (clock w (ticks w)))))"
  by (simp add: track_ephemeral_eq Let_def split: option.splits)

text \<open>
  C8: \<open>track\<close> with \<open>persist = false\<close> issues the expiry of the key
  \<open>insyte::<name>::<today>\<close> first and the increment second, and the increment only
  when the expiry did not fail. So a key that does not exist yet is created by the
  increment after the expiry was sent: in a store that ignores the expiry of a missing
  key, such a call leaves every time-to-live as it was.
\<close>

theorem track_ephemeral_expire_first:
  "let key = ''insyte::'' @ name @ ''::'' @ format_ddMMyyyy (clock w (ticks w));
       field = JSON_stringify [(''event'', ev)];
       w' = snd (track this name ev False w)
   in requests w' = requests w @
        (if fault w (length (requests w)) (Expire key (retention this)) = None
         then [Expire key (retention this), HIncrBy key field 1]
         else [Expire key (retention this)])
      \<and> (hashes w key = None \<and> fst (track this name ev False w) = Inr () \<longrightarrow>
           hashes w' key = Some [(field, 1)] \<and> (expire_needs_key w \<longrightarrow> ttls w' = ttls w))"
proof -
  let ?key = "''insyte::'' @ name @ ''::'' @ format_ddMMyyyy (clock w (ticks w))"
  let ?field = "JSON_stringify [(''event'', ev)]"
  let ?w' = "snd (track this name ev False w)"
  have a: "requests ?w' = requests w @
        (if fault w (length (requests w)) (Expire ?key (retention this)) = None
         then [Expire ?key (retention this), HIncrBy ?key ?field 1]
         else [Expire ?key (retention this)])"
    by (rule track_ephemeral_requests)
  have b: "hashes w ?key = None \<and> fst (track this name ev False w) = Inr () \<longrightarrow>
           hashes ?w' ?key = Some [(?field, 1)] \<and> (expire_needs_key w \<longrightarrow> ttls ?w' = ttls w)"
    using track_ephemeral_creates [of w name this ev] by blast
  show ?thesis
    unfolding Let_def using a b by (intro conjI)
qed

theorem track_ephemeral_expire_first_witness:
  "hashes example_world ''insyte::page-view::01/01/2024'' = None
   \<and> fst (track (new_Insyte None) ''page-view'' page_view False example_world) = Inr ()
   \<and> expire_needs_key example_world
   \<and> requests (snd (track (new_Insyte None) ''page-view'' page_view False example_world)) =
       [Expire ''insyte::page-view::01/01/2024'' 604800,
        HIncrBy ''insyte::page-view::01/01/2024'' (JSON_stringify [(''event'', page_view)]) 1]
   \<and> hashes (snd (track (new_Insyte None) ''page-view'' page_view False example_world))
        ''insyte::page-view::01/01/2024'' = Some [(JSON_stringify [(''event'', page_view)], 1)]
   \<and> ttls (snd (track (new_Insyte None) ''page-view'' page_view False example_world))
        ''insyte::page-view::01/01/2024'' = None"
proof -
  have ok1: "fst (track (new_Insyte None) ''page-view'' page_view False example_world) = Inr ()"
    by (simp only: track_ephemeral_resolved example_world_fault simp_thms)
  have e: "hashes example_world ''insyte::page-view::01/01/2024'' = None"
      "expire_needs_key example_world" "ttls example_world ''insyte::page-view::01/01/2024'' = None"
      "requests example_world = []"
    by (simp_all add: example_world_def)
  have r: "retention (new_Insyte None) = 604800"
    by (simp add: new_Insyte_def)
  show ?thesis
    using track_ephemeral_expire_first [of "''page-view''" example_world page_view "new_Insyte None"] ok1 e r
    by (simp add: Let_def example_world_today example_world_fault)
qed

text \<open>
  Every call of \<open>track\<close> with \<open>persist = false\<close> opens with the request to expire the
  key after the tracker's retention and issues no other expiry; the store records it
  when the key exists, or when the store keeps the expiry of a missing key.
\<close>

lemma track_ephemeral_expiry_request:
  "let key = ''insyte::'' @ name @ ''::'' @ format_ddMMyyyy (clock w (ticks w));
       w' = snd (track this name ev False w)
   in take 1 (drop (length (requests w)) (requests w')) = [Expire key (retention this)]
      \<and> (\<forall>k s. Expire k s \<in> set (drop (length (requests w)) (requests w')) \<longrightarrow>
            k = key \<and> s = retention this)
      \<and> (fault w (length (requests w)) (Expire key (retention this)) = None
           \<and> (hashes w key \<noteq> None \<or> \<not> expire_needs_key w) \<longrightarrow>
          ttls w' key = Some (retention this))
      \<and> retention (new_Insyte None) = 604800
      \<and> (r \<noteq> 0 \<longrightarrow> retention (new_Insyte (Some \<lparr>opts_retention = r\<rparr>)) = r)"
proof -
  let ?key = "''insyte::'' @ name @ ''::'' @ format_ddMMyyyy (clock w (ticks w))"
  let ?w' = "snd (track this name ev False w)"
  have a: "take 1 (drop (length (requests w)) (requests ?w')) = [Expire ?key (retention this)]"
    by (simp only: track_ephemeral_requests) simp
  have b: "\<forall>k s. Expire k s \<in> set (drop (length (requests w)) (requests ?w')) \<longrightarrow>
            k = ?key \<and> s = retention this"
    by (simp only: track_ephemeral_requests) simp
  have c: "fault w (length (requests w)) (Expire ?key (retention this)) = None
           \<and> (hashes w ?key \<noteq> None \<or> \<not> expire_needs_key w) \<longrightarrow>
          ttls ?w' ?key = Some (retention this)"
    using track_ephemeral_ttl_applied [of w name this ev] by blast
  have d: "retention (new_Insyte None) = 604800"
    by (simp add: new_Insyte_def)
  have e: "r \<noteq> 0 \<longrightarrow> retention (new_Insyte (Some \<lparr>opts_retention = r\<rparr>)) = r"
    by (simp add: new_Insyte_def)
  show ?thesis
    unfolding Let_def using a b c d e by (intro conjI)
qed

text \<open>
  C3: the claim is that every call of \<open>track\<close> with \<open>persist = false\<close> leaves the key
  \<open>insyte::<name>::<today>\<close> with a time-to-live equal to the retention. The call sends
  the expiry before the increment that creates the key. In a store with the semantics
  of Redis, the first call for a key therefore resolves, creates the hash and leaves it
  without any time-to-live: here for a tracker constructed with \<open>{retention: 120}\<close>.
\<close>

theorem track_first_call_leaves_no_ttl:
  "fst (track (new_Insyte (Some \<lparr>opts_retention = 120\<rparr>)) ''page-view'' page_view False example_world) =
     Inr ()
   \<and> requests (snd (track (new_Insyte (Some \<lparr>opts_retention = 120\<rparr>)) ''page-view'' page_view False
        example_world)) =
       [Expire ''insyte::page-view::01/01/2024'' 120,
        HIncrBy ''insyte::page-view::01/01/2024'' (JSON_stringify [(''event'', page_view)]) 1]
   \<and> hashes (snd (track (new_Insyte (Some \<lparr>opts_retention = 120\<rparr>)) ''page-view'' page_view False
        example_world)) ''insyte::page-view::01/01/2024'' =
       Some [(JSON_stringify [(''event'', page_view)], 1)]
   \<and> ttls (snd (track (new_Insyte (Some \<lparr>opts_retention = 120\<rparr>)) ''page-view'' page_view False
        example_world)) ''insyte::page-view::01/01/2024'' = None"
proof -
  let ?t = "new_Insyte (Some \<lparr>opts_retention = 120\<rparr>)"
  let ?key = "''insyte::'' @ ''page-view'' @ ''::'' @ format_ddMMyyyy (clock example_world (ticks example_world))"
  have ok: "fst (track ?t ''page-view'' page_view False example_world) = Inr ()"
    by (simp only: track_ephemeral_resolved example_world_fault simp_thms)
  have e: "hashes example_world ?key = None" "expire_needs_key example_world"
      "ttls example_world ''insyte::page-view::01/01/2024'' = None" "requests example_world = []"
    by (simp_all add: example_world_def)
  have r: "retention ?t = 120"
    by (simp add: new_Insyte_def)
  have "requests (snd (track ?t ''page-view'' page_view False example_world)) =
      [Expire ?key 120, HIncrBy ?key (JSON_stringify [(''event'', page_view)]) 1]"
    by (simp only: track_ephemeral_requests example_world_fault r e simp_thms if_True append_Nil)
  moreover have "hashes (snd (track ?t ''page-view'' page_view False example_world)) ?key =
      Some [(JSON_stringify [(''event'', page_view)], 1)]
      \<and> (expire_needs_key example_world \<longrightarrow>
           ttls (snd (track ?t ''page-view'' page_view False example_world)) = ttls example_world)"
    using e(1) ok by (rule track_ephemeral_creates)
  ultimately show ?thesis
    using ok e by (simp add: example_world_today)
qed

text \<open>
  C1: two calls of \<open>track\<close> with \<open>persist = false\<close>, the same name and the same
  event, that both resolve and read the same date from the clock, address the same key
  \<open>insyte::<name>::<today>\<close> and the same field \<open>JSON.stringify({event})\<close>. The second
  call raises the count of that field by one, adds no field to the hash and leaves the
  counts of all other fields as they are.
\<close>

theorem track_twice_same_field:
  assumes same_day: "clock w (Suc (ticks w)) = clock w (ticks w)"
    and ok1: "fst (track this name ev False w) = Inr ()"
    and ok2: "fst (track this name ev False (snd (track this name ev False w))) = Inr ()"
  shows "let key = ''insyte::'' @ name @ ''::'' @ format_ddMMyyyy (clock w (ticks w));
             field = JSON_stringify [(''event'', ev)];
             w1 = snd (track this name ev False w);
             w2 = snd (track this name ev False w1)
         in requests w2 = requests w @
              [Expire key (retention this), HIncrBy key field 1,
               Expire key (retention this), HIncrBy key field 1]
            \<and> count_of w1 key field = count_of w key field + 1
            \<and> count_of w2 key field = count_of w1 key field + 1
            \<and> map fst (hash_of w2 key) = map fst (hash_of w1 key)
            \<and> (\<forall>f. f \<noteq> field \<longrightarrow> count_of w2 key f = count_of w1 key f)"
proof -
  let ?key = "''insyte::'' @ name @ ''::'' @ format_ddMMyyyy (clock w (ticks w))"
  let ?field = "JSON_stringify [(''event'', ev)]"
  let ?w1 = "snd (track this name ev False w)"
  let ?w2 = "snd (track this name ev False ?w1)"
  have key2: "''insyte::'' @ name @ ''::'' @ format_ddMMyyyy (clock ?w1 (ticks ?w1)) = ?key"
    by (simp only: track_ephemeral_clock track_ephemeral_ticks same_day)
  have f1: "fault w (length (requests w)) (Expire ?key (retention this)) = None"
    using ok1 by (simp only: track_ephemeral_resolved)
  have f2: "fault ?w1 (length (requests ?w1)) (Expire ?key (retention this)) = None"
    using ok2 by (simp only: track_ephemeral_resolved key2)
  have r1: "requests ?w1 = requests w @ [Expire ?key (retention this), HIncrBy ?key ?field 1]"
    by (simp only: track_ephemeral_requests f1 simp_thms if_True)
  have "requests ?w2 = requests ?w1 @ [Expire ?key (retention this), HIncrBy ?key ?field 1]"
    using f2 by (simp only: track_ephemeral_requests [of this name ev ?w1] key2 simp_thms if_True)
  with r1 have reqs: "requests ?w2 = requests w @
      [Expire ?key (retention this), HIncrBy ?key ?field 1,
       Expire ?key (retention this), HIncrBy ?key ?field 1]"
    by simp
  have c1: "count_of ?w1 ?key ?field = count_of w ?key ?field + 1"
    by (simp only: track_ephemeral_count [OF ok1] simp_thms if_True)
  have c2: "count_of ?w2 ?key f =
      (if f = ?field then count_of ?w1 ?key f + 1 else count_of ?w1 ?key f)" for f
    using track_ephemeral_count [OF ok2, of f] by (simp only: key2)
  have "?field \<in> fst ` set (hash_of ?w1 ?key)"
    by (rule track_ephemeral_has_field [OF ok1])
  then have fields: "map fst (hash_of ?w2 ?key) = map fst (hash_of ?w1 ?key)"
    using track_ephemeral_fields [OF ok2] by (simp only: key2 simp_thms if_True)
  show ?thesis
    unfolding Let_def using reqs c1 c2 fields by simp
qed

theorem track_twice_same_field_witness:
  "clock example_world (Suc (ticks example_world)) = clock example_world (ticks example_world)
   \<and> fst (track (new_Insyte None) ''page-view'' page_view False example_world) = Inr ()
   \<and> fst (track (new_Insyte None) ''page-view'' page_view False
            (snd (track (new_Insyte None) ''page-view'' page_view False example_world))) = Inr ()
   \<and> count_of (snd (track (new_Insyte None) ''page-view'' page_view False example_world))
        ''insyte::page-view::01/01/2024'' (JSON_stringify [(''event'', page_view)]) = 1
   \<and> count_of (snd (track (new_Insyte None) ''page-view'' page_view False
            (snd (track (new_Insyte None) ''page-view'' page_view False example_world))))
        ''insyte::page-view::01/01/2024'' (JSON_stringify [(''event'', page_view)]) = 2
   \<and> ''other'' \<noteq> JSON_stringify [(''event'', page_view)]
   \<and> count_of (snd (track (new_Insyte None) ''page-view'' page_view False
            (snd (track (new_Insyte None) ''page-view'' page_view False example_world))))
        ''insyte::page-view::01/01/2024'' ''other'' =
       count_of (snd (track (new_Insyte None) ''page-view'' page_view False example_world))
        ''insyte::page-view::01/01/2024'' ''other''"
proof -
  let ?t = "new_Insyte None"
  let ?w1 = "snd (track ?t ''page-view'' page_view False example_world)"
  have field: "''other'' \<noteq> JSON_stringify [(''event'', page_view)]"
    by (simp add: page_view_field)
  have sd: "clock example_world (Suc (ticks example_world)) = clock example_world (ticks example_world)"
    by (simp add: example_world_def)
  have ok1: "fst (track ?t ''page-view'' page_view False example_world) = Inr ()"
    by (simp only: track_ephemeral_resolved example_world_fault simp_thms)
  have ok2: "fst (track ?t ''page-view'' page_view False ?w1) = Inr ()"
    by (simp only: track_ephemeral_resolved track_ephemeral_fault example_world_fault simp_thms)
  have c0: "count_of example_world ''insyte::page-view::01/01/2024''
              (JSON_stringify [(''event'', page_view)]) = 0"
    by (simp add: count_of_def hash_of_def example_world_def)
  show ?thesis
    using track_twice_same_field [OF sd ok1 ok2] sd ok1 ok2 c0 field
    by (simp add: Let_def example_world_today)
qed

lemma stringify_not_index: "\<not> is_array_index (JSON_stringify ps)"
  by (simp add: JSON_stringify_def is_array_index_def read_nat_def is_digit_def)

text \<open>
  The example of the spec: after tracking \<open>{page: '/'}\<close> twice under \<open>page-view\<close> on
  1 January 2024, \<open>retrieve\<close> of that day has one entry, with count 2.
\<close>

lemma track_twice_then_retrieve_example:
  "fst (retrieve ''page-view'' ''01/01/2024''
         (snd (track (new_Insyte None) ''page-view'' page_view False
            (snd (track (new_Insyte None) ''page-view'' page_view False example_world))))) =
     Inr \<lparr>date = ''01/01/2024'', event = [[(JSON_stringify [(''event'', page_view)], Num 2)]]\<rparr>"
proof -
  let ?t = "new_Insyte None"
  let ?key = "''insyte::'' @ ''page-view'' @ ''::'' @ format_ddMMyyyy (clock example_world (ticks example_world))"
  let ?w1 = "snd (track ?t ''page-view'' page_view False example_world)"
  let ?w2 = "snd (track ?t ''page-view'' page_view False ?w1)"
  have ok1: "fst (track ?t ''page-view'' page_view False example_world) = Inr ()"
    by (simp only: track_ephemeral_resolved example_world_fault simp_thms)
  have ok2: "fst (track ?t ''page-view'' page_view False ?w1) = Inr ()"
    by (simp only: track_ephemeral_resolved track_ephemeral_fault example_world_fault simp_thms)
  have key2: "''insyte::'' @ ''page-view'' @ ''::'' @ format_ddMMyyyy (clock ?w1 (ticks ?w1)) = ?key"
    by (simp add: track_ephemeral_clock track_ephemeral_ticks example_world_def)
  have h0: "hash_of example_world ?key = []"
    by (simp add: hash_of_def example_world_def)
  have "hash_of ?w1 ?key = [(JSON_stringify [(''event'', page_view)], 1)]"
    by (simp only: track_ephemeral_hash [OF ok1] h0 hincr.simps)
  moreover have "hash_of ?w2 ?key = hincr (JSON_stringify [(''event'', page_view)]) 1 (hash_of ?w1 ?key)"
    using track_ephemeral_hash [OF ok2] by (simp only: key2)
  ultimately have "hash_of ?w2 ''insyte::page-view::01/01/2024'' = [(JSON_stringify [(''event'', page_view)], 2)]"
    by (simp add: example_world_today)
  moreover have "fault ?w2 = (\<lambda>n op. None)"
    by (simp only: track_ephemeral_fault example_world_fault)
  ultimately show ?thesis
    by (simp add: retrieve_eq Let_def Object_entries_no_index stringify_not_index
        Number_show_int_safe)
qed

subsection \<open>The constructor\<close>

text \<open>
  C9: constructing with \<open>{retention: 0}\<close> leaves the retention at the default of
  604800 seconds, since the constructor takes the option only when it is truthy.
\<close>

theorem new_Insyte_zero_retention:
  "retention (new_Insyte (Some \<lparr>opts_retention = 0\<rparr>)) = 604800"
  by (simp add: new_Insyte_def)

subsection \<open>retrieve\<close>

text \<open>
  C5: when the store answers the request and holds no hash under
  \<open>insyte::<name>::<date>\<close>, or an empty one, \<open>retrieve\<close> resolves with the date it was
  given and an empty event list; its only effect is the one request.
\<close>

theorem retrieve_no_events:
  assumes "fault w (length (requests w)) (HGetAll (''insyte::'' @ name @ ''::'' @ dt)) = None"
    and "hashes w (''insyte::'' @ name @ ''::'' @ dt) = None
         \<or> hashes w (''insyte::'' @ name @ ''::'' @ dt) = Some []"
  shows "retrieve name dt w =
           (Inr \<lparr>date = dt, event = []\<rparr>,
            w\<lparr>requests := requests w @ [HGetAll (''insyte::'' @ name @ ''::'' @ dt)]\<rparr>)"
  using assms by (auto simp: retrieve_eq hash_of_def Let_def Object_entries_def)

theorem retrieve_no_events_witness:
  "fault example_world (length (requests example_world)) (HGetAll (''insyte::'' @ ''page-view'' @ ''::'' @ ''01/01/2024'')) = None
   \<and> hashes example_world (''insyte::'' @ ''page-view'' @ ''::'' @ ''01/01/2024'') = None
   \<and> fst (retrieve ''page-view'' ''01/01/2024'' example_world) = Inr \<lparr>date = ''01/01/2024'', event = []\<rparr>"
proof -
  have f: "fault example_world (length (requests example_world))
             (HGetAll (''insyte::'' @ ''page-view'' @ ''::'' @ ''01/01/2024'')) = None"
    by (simp add: example_world_def)
  have h: "hashes example_world (''insyte::'' @ ''page-view'' @ ''::'' @ ''01/01/2024'') = None"
    by (simp add: example_world_def)
  show ?thesis
    using retrieve_no_events [OF f disjI1 [OF h]] f h by simp
qed

text \<open>
  C6: when the store answers the request, \<open>retrieve\<close> reads the key
  \<open>insyte::<name>::<date>\<close> and resolves with the date it was given and with one entry
  for every field of the stored hash, in the order of \<open>Object.entries\<close>. An entry has
  one property: its name is the field string as stored, its value is \<open>Number\<close> of the
  count's text, which is the count itself when that is below \<open>2 ^ 53\<close> in magnitude.
\<close>

theorem retrieve_exposes_fields:
  assumes "fault w (length (requests w)) (HGetAll (''insyte::'' @ name @ ''::'' @ dt)) = None"
    and "hashes w (''insyte::'' @ name @ ''::'' @ dt) = Some h"
  shows "\<exists>entries.
           retrieve name dt w =
             (Inr \<lparr>date = dt, event = entries\<rparr>,
              w\<lparr>requests := requests w @ [HGetAll (''insyte::'' @ name @ ''::'' @ dt)]\<rparr>)
           \<and> entries = map (\<lambda>(field, value). [(field, Number value)])
                         (Object_entries (map (\<lambda>(field, c). (field, show_int c)) h))
           \<and> mset entries = mset (map (\<lambda>(field, c). [(field, Number (show_int c))]) h)
           \<and> (\<forall>(field, c) \<in> set h. \<bar>c\<bar> < 2 ^ 53 \<longrightarrow> [(field, Num c)] \<in> set entries)"
proof -
  let ?entries = "map (\<lambda>(field, value). [(field, Number value)])
      (Object_entries (map (\<lambda>(field, c). (field, show_int c)) h))"
  have r: "retrieve name dt w =
      (Inr \<lparr>date = dt, event = ?entries\<rparr>,
       w\<lparr>requests := requests w @ [HGetAll (''insyte::'' @ name @ ''::'' @ dt)]\<rparr>)"
    using assms by (simp add: retrieve_eq hash_of_def Let_def)
  have "mset ?entries =
      image_mset (\<lambda>(field, value). [(field, Number value)])
        (mset (Object_entries (map (\<lambda>(field, c). (field, show_int c)) h)))"
    by simp
  also have "\<dots> = image_mset (\<lambda>(field, value). [(field, Number value)])
        (mset (map (\<lambda>(field, c). (field, show_int c)) h))"
    by (simp only: mset_Object_entries)
  also have "\<dots> = mset (map (\<lambda>(field, c). [(field, Number (show_int c))]) h)"
    by (simp add: case_prod_unfold image_mset.compositionality comp_def)
  finally have m: "mset ?entries = mset (map (\<lambda>(field, c). [(field, Number (show_int c))]) h)" .
  have "[(field, Num c)] \<in> set ?entries" if "(field, c) \<in> set h" and "\<bar>c\<bar> < 2 ^ 53" for field c
  proof -
    from that(1) have "[(field, Number (show_int c))]
        \<in> set (map (\<lambda>(field, c). [(field, Number (show_int c))]) h)"
      by force
    then have "[(field, Number (show_int c))] \<in> set ?entries"
      using m by (metis set_mset_mset)
    then show ?thesis
      by (simp only: Number_show_int_safe [OF that(2)])
  qed
  then have safe: "\<forall>(field, c) \<in> set h. \<bar>c\<bar> < 2 ^ 53 \<longrightarrow> [(field, Num c)] \<in> set ?entries"
    by blast
  show ?thesis
    using r m safe by (intro exI [of _ ?entries] conjI refl)
qed

lemma index_example: "is_array_index ''7''" "array_index ''7'' = 7"
proof -
  have r: "read_nat ''7'' = Some 7" by code_simp
  have s: "show_nat 7 = ''7''" by code_simp
  show "is_array_index ''7''" by (simp add: is_array_index_def r s)
  show "array_index ''7'' = 7" by (simp add: array_index_def r)
qed

lemma no_index_example: "\<not> is_array_index ''other''"
  by (simp add: is_array_index_def read_nat_def is_digit_def)

lemma entries_example:
  "Object_entries [(''other'', show_int 5), (''7'', show_int 1)] =
     [(''7'', show_int 1), (''other'', show_int 5)]"
  by (simp add: Object_entries_def index_example no_index_example)

theorem retrieve_exposes_fields_witness:
  "fault (example_world\<lparr>hashes := [''insyte::page-view::01/01/2024'' \<mapsto> [(''other'', 5), (''7'', 1)]]\<rparr>) 0
        (HGetAll ''insyte::page-view::01/01/2024'') = None
   \<and> fst (retrieve ''page-view'' ''01/01/2024''
          (example_world\<lparr>hashes := [''insyte::page-view::01/01/2024'' \<mapsto> [(''other'', 5), (''7'', 1)]]\<rparr>)) =
       Inr \<lparr>date = ''01/01/2024'', event = [[(''7'', Num 1)], [(''other'', Num 5)]]\<rparr>"
proof -
  let ?w = "example_world\<lparr>hashes := [''insyte::page-view::01/01/2024'' \<mapsto> [(''other'', 5), (''7'', 1)]]\<rparr>"
  have f: "fault ?w (length (requests ?w)) (HGetAll (''insyte::'' @ ''page-view'' @ ''::'' @ ''01/01/2024'')) = None"
    by (simp add: example_world_def)
  have h: "hashes ?w (''insyte::'' @ ''page-view'' @ ''::'' @ ''01/01/2024'') = Some [(''other'', 5), (''7'', 1)]"
    by simp
  from retrieve_exposes_fields [OF f h]
  obtain entries where r: "fst (retrieve ''page-view'' ''01/01/2024'' ?w) = Inr \<lparr>date = ''01/01/2024'', event = entries\<rparr>"
    and e: "entries = map (\<lambda>(field, value). [(field, Number value)])
        (Object_entries (map (\<lambda>(field, c). (field, show_int c)) [(''other'', 5), (''7'', 1)]))"
    by auto
  have "entries = [[(''7'', Num 1)], [(''other'', Num 5)]]"
    unfolding e using entries_example by (simp add: Number_show_int_safe)
  with r f show ?thesis
    by (simp add: example_world_def)
qed

text \<open>A count beyond the integers that a double holds one by one is rounded.\<close>

lemma Number_rounds_example: "Number ''9007199254740993'' = Num 9007199254740992"
proof -
  have "read_int ''9007199254740993'' = Some 9007199254740993"
    by (simp add: read_int_def read_nat_def is_digit_def digit_val_def)
  moreover have "bit_length 9007199254740993 = 54" "bit_length 9007199254740992 = 54"
    by (simp_all add: bit_length.simps)
  ultimately show ?thesis
    by (simp add: Number_def number_of_int_def round_to_double_def Let_def)
qed

subsection \<open>retrieveDays without days\<close>

text \<open>
  C10: for \<open>nDays \<le> 0\<close> the loop of \<open>retrieveDays\<close> does not run: the call resolves
  with the empty array and leaves the world as it was, so no request reaches the store,
  the clock is not read and nothing is logged.
\<close>

theorem retrieveDays_nonpositive:
  "nDays \<le> 0 \<Longrightarrow> retrieveDays name (Some nDays) settled w = (Inr [], w)"
  by (simp add: retrieveDays_def retrieveDays_loop.simps try_catch_def await_def Promise_all_def
      return_io_def sort_js_def settle_order_def)

theorem retrieveDays_nonpositive_witness:
  "(- 2 :: int) \<le> 0 \<and> retrieveDays ''page-view'' (Some (- 2)) [1, 0] example_world = (Inr [], example_world)
   \<and> requests (snd (retrieveDays ''page-view'' (Some 0) [] example_world)) = []"
  using retrieveDays_nonpositive [of "- 2" "''page-view''" "[1, 0]" example_world]
    retrieveDays_nonpositive [of 0 "''page-view''" "[]" example_world]
  by (simp add: example_world_def)

subsection \<open>The loop of retrieveDays\<close>

lemma getDate_Some:
  "getDate (Some i) w = (format_ddMMyyyy (subDays (clock w (ticks w)) i), w\<lparr>ticks := Suc (ticks w)\<rparr>)"
  by (simp add: getDate_def new_Date_def)

lemma loop_round:
  "retrieve_start name (format_ddMMyyyy (subDays (clock w (ticks w)) i)) (w\<lparr>ticks := Suc (ticks w)\<rparr>) =
     (day_promise name w i 0,
      w\<lparr>ticks := Suc (ticks w), requests := requests w @ [day_request name w i 0]\<rparr>)"
  by (simp add: retrieve_start_def redis_hgetall_def request_def sync_def Let_def day_promise_def
      day_answer_def day_request_def day_date_def split: option.splits)

lemma day_shift:
  assumes "clock w2 = clock w" and "ticks w2 = Suc (ticks w)" and "fault w2 = fault w"
    and "hashes w2 = hashes w" and "length (requests w2) = Suc (length (requests w))"
  shows "day_date w2 (Suc i) j = day_date w i (Suc j)"
    and "day_request name w2 (Suc i) j = day_request name w i (Suc j)"
    and "day_answer name w2 (Suc i) j = day_answer name w i (Suc j)"
    and "day_promise name w2 (Suc i) j = day_promise name w i (Suc j)"
proof -
  show d: "day_date w2 (Suc i) j = day_date w i (Suc j)"
    using assms by (simp add: day_date_def)
  show r: "day_request name w2 (Suc i) j = day_request name w i (Suc j)"
    by (simp only: day_request_def d)
  show a: "day_answer name w2 (Suc i) j = day_answer name w i (Suc j)"
    unfolding day_answer_def r d assms(3) assms(4) assms(5) by simp
  show "day_promise name w2 (Suc i) j = day_promise name w i (Suc j)"
    by (simp only: day_promise_def d a)
qed

lemma retrieveDays_loop_eq:
  "retrieveDays_loop name nDays i promises w =
     (promises @ map (day_promise name w i) [0..<nat (nDays - int i)],
      w\<lparr>ticks := ticks w + nat (nDays - int i),
        requests := requests w @ map (day_request name w i) [0..<nat (nDays - int i)]\<rparr>)"
proof (induction "nat (nDays - int i)" arbitrary: i promises w)
  case 0
  then have "\<not> int i < nDays" by simp
  with 0 show ?case
    by (subst retrieveDays_loop.simps) simp
next
  case (Suc k)
  let ?w2 = "w\<lparr>ticks := Suc (ticks w), requests := requests w @ [day_request name w i 0]\<rparr>"
  from Suc.hyps(2) have lt: "int i < nDays" and k: "k = nat (nDays - int (Suc i))"
    by simp_all
  have w2: "clock ?w2 = clock w" "ticks ?w2 = Suc (ticks w)" "fault ?w2 = fault w"
      "hashes ?w2 = hashes w" "length (requests ?w2) = Suc (length (requests w))"
    by simp_all
  have shift: "day_request name ?w2 (Suc i) = (\<lambda>j. day_request name w i (Suc j))"
      "day_promise name ?w2 (Suc i) = (\<lambda>j. day_promise name w i (Suc j))"
    by (rule ext, rule day_shift [OF w2])+
  have "retrieveDays_loop name nDays i promises w =
          retrieveDays_loop name nDays (Suc i) (promises @ [day_promise name w i 0]) ?w2"
    using lt by (subst retrieveDays_loop.simps) (simp add: getDate_Some loop_round)
  also have "\<dots> =
     ((promises @ [day_promise name w i 0]) @ map (day_promise name ?w2 (Suc i)) [0..<k],
      ?w2\<lparr>ticks := ticks ?w2 + k,
        requests := requests ?w2 @ map (day_request name ?w2 (Suc i)) [0..<k]\<rparr>)"
    unfolding k by (rule Suc.hyps(1)) (rule k)
  also have "\<dots> =
     (promises @ map (day_promise name w i) [0..<Suc k],
      w\<lparr>ticks := ticks w + Suc k,
        requests := requests w @ map (day_request name w i) [0..<Suc k]\<rparr>)"
    by (simp only: shift map_upt_Suc) simp
  finally show ?case
    by (simp only: Suc.hyps(2) [symmetric])
qed

lemma day_answer_rejected:
  "day_answer name w 0 j = Inl e \<longleftrightarrow>
     fault w (length (requests w) + j)
       (HGetAll (''insyte::'' @ name @ ''::'' @ format_ddMMyyyy (subDays (clock w (ticks w + j)) j))) = Some e"
  by (simp add: day_answer_def day_request_def day_date_def split: option.splits)

lemma day_promise_rejected:
  "day_answer name w i j = Inl e \<Longrightarrow>
   day_promise name w i j w' =
     (Inl e, w'\<lparr>console := console w' @ [(Stderr, ''Failed to retrieve data from Insyte:'', e)]\<rparr>)"
  by (simp add: day_promise_def retrieve_resume_eq)

lemma day_promise_fulfilled:
  "day_answer name w i j = Inr data \<Longrightarrow> day_promise name w i j w' = (Inr (day_value name w i j), w')"
  by (auto simp: day_promise_def retrieve_resume_eq day_answer_def day_value_def hash_of_def
      split: option.splits)

subsection \<open>Promise.all\<close>

lemma first_rejection_Some: "first_rejection ps = Some e \<Longrightarrow> Inl e \<in> set ps"
  by (induction ps) (auto split: sum.splits)

lemma first_rejection_None: "first_rejection ps = None \<longleftrightarrow> (\<forall>e. Inl e \<notin> set ps)"
  by (induction ps) (auto split: sum.splits)

lemma set_first_occurrences: "set (first_occurrences order) = set order"
  by (induction order rule: first_occurrences.induct) auto

lemma settle_order_set: "set (settle_order settled n) = {0..<n}"
  by (auto simp: settle_order_def set_first_occurrences)

lemma settle_order_first:
  "i < n \<Longrightarrow> \<exists>order. settle_order (i # rest) n = i # order"
  by (simp add: settle_order_def)

lemma settle_days:
  assumes "\<forall>i\<in>set order. i < n"
  shows "settle_in_order order (map (day_promise name w 0) [0..<n]) vals w' =
     (case first_rejection (map (day_answer name w 0) order) of
        Some e \<Rightarrow>
          (Inl e, w'\<lparr>console := console w' @ [(Stderr, ''Failed to retrieve data from Insyte:'', e)]\<rparr>)
      | None \<Rightarrow> (Inr (fold (\<lambda>i vs. vs[i := Some (day_value name w 0 i)]) order vals), w'))"
  using assms
proof (induction order arbitrary: vals)
  case Nil
  show ?case by simp
next
  case (Cons i order)
  then have i: "i < n" and rest: "\<forall>i\<in>set order. i < n"
    by simp_all
  from i have nth: "map (day_promise name w 0) [0..<n] ! i = day_promise name w 0 i"
    by simp
  show ?case
  proof (cases "day_answer name w 0 i")
    case (Inl e)
    then show ?thesis
      by (simp add: nth day_promise_rejected)
  next
    case (Inr data)
    have "settle_in_order (i # order) (map (day_promise name w 0) [0..<n]) vals w' =
        settle_in_order order (map (day_promise name w 0) [0..<n])
          (vals[i := Some (day_value name w 0 i)]) w'"
      by (simp add: nth day_promise_fulfilled [OF Inr])
    also have "\<dots> =
       (case first_rejection (map (day_answer name w 0) order) of
          Some e \<Rightarrow>
            (Inl e, w'\<lparr>console := console w' @ [(Stderr, ''Failed to retrieve data from Insyte:'', e)]\<rparr>)
        | None \<Rightarrow>
            (Inr (fold (\<lambda>i vs. vs[i := Some (day_value name w 0 i)]) order
                    (vals[i := Some (day_value name w 0 i)])), w'))"
      by (rule Cons.IH [OF rest])
    also have "\<dots> =
       (case first_rejection (map (day_answer name w 0) (i # order)) of
          Some e \<Rightarrow>
            (Inl e, w'\<lparr>console := console w' @ [(Stderr, ''Failed to retrieve data from Insyte:'', e)]\<rparr>)
        | None \<Rightarrow>
            (Inr (fold (\<lambda>i vs. vs[i := Some (day_value name w 0 i)]) (i # order) vals), w'))"
      by (simp add: Inr split: option.splits)
    finally show ?thesis .
  qed
qed

lemma fold_update_length:
  "length (fold (\<lambda>i vs. vs[i := Some (f i)]) order vals) = length vals"
  by (induction order arbitrary: vals) simp_all

lemma fold_update_nth:
  "k < length vals \<Longrightarrow>
   fold (\<lambda>i vs. vs[i := Some (f i)]) order vals ! k =
     (if k \<in> set order then Some (f k) else vals ! k)"
  by (induction order arbitrary: vals) (auto simp: nth_list_update)

lemma fold_update_all:
  assumes "set order = {0..<n}"
  shows "fold (\<lambda>i vs. vs[i := Some (f i)]) order (replicate n None) = map (\<lambda>i. Some (f i)) [0..<n]"
  using assms by (intro nth_equalityI) (simp_all add: fold_update_length fold_update_nth)

lemma map_filter_Some: "List.map_filter (\<lambda>v. v) (map (\<lambda>i. Some (f i)) xs) = map f xs"
  by (induction xs) simp_all

lemma retrieveDays_eq:
  "retrieveDays name nDays settled w =
     (let n = nat (case nDays of None \<Rightarrow> 1 | Some n \<Rightarrow> n);
          w1 = w\<lparr>ticks := ticks w + n,
                 requests := requests w @ map (day_request name w 0) [0..<n]\<rparr>
      in case first_rejection (map (day_answer name w 0) (settle_order settled n)) of
           Some e \<Rightarrow>
             (Inl e,
              w1\<lparr>console := console w @
                   [(Stderr, ''Failed to retrieve data from Insyte:'', e),
                    (Stdout, ''Failed to retrieve Days from Insyte:'', e)]\<rparr>)
         | None \<Rightarrow> (Inr (sort_js compare_dates (map (day_value name w 0) [0..<n])), w1))"
proof -
  let ?n = "nat (case nDays of None \<Rightarrow> 1 | Some n \<Rightarrow> n)"
  have order: "\<forall>i\<in>set (settle_order settled ?n). i < ?n"
    by (simp add: settle_order_set)
  show ?thesis
    by (simp add: retrieveDays_def retrieveDays_loop_eq Promise_all_def try_catch_def await_def
        return_io_def console_log_def throw_io_def Let_def settle_days [OF order]
        fold_update_all [OF settle_order_set] map_filter_Some split: option.splits)
qed

text \<open>
  C7: if the store fails the request of one of the days, \<open>retrieveDays\<close> rejects,
  whatever the order in which the promises settle, and returns no result. Its error is
  the very error with which the store answered the request of one of the days. When
  the call rejects, that error has been logged twice and nothing else has: by the
  \<open>retrieve\<close> of that day, and by \<open>retrieveDays\<close> as its last line before throwing it
  again. If the promise of a failing day is the first to settle, it is its error that
  is thrown.
\<close>

theorem retrieveDays_fail_fast:
  assumes day: "int j < (case nDays of None \<Rightarrow> 1 | Some n \<Rightarrow> n)"
    and failed: "fault w (length (requests w) + j)
        (HGetAll (''insyte::'' @ name @ ''::'' @
           format_ddMMyyyy (subDays (clock w (ticks w + j)) j))) = Some e0"
  shows "(\<exists>e i. fst (retrieveDays name nDays settled w) = Inl e
           \<and> int i < (case nDays of None \<Rightarrow> 1 | Some n \<Rightarrow> n)
           \<and> fault w (length (requests w) + i)
                (HGetAll (''insyte::'' @ name @ ''::'' @
                   format_ddMMyyyy (subDays (clock w (ticks w + i)) i))) = Some e
           \<and> console (snd (retrieveDays name nDays settled w)) =
                console w @
                [(Stderr, ''Failed to retrieve data from Insyte:'', e),
                 (Stdout, ''Failed to retrieve Days from Insyte:'', e)])
         \<and> (\<forall>rest. fst (retrieveDays name nDays (j # rest) w) = Inl e0)"
proof -
  let ?n = "nat (case nDays of None \<Rightarrow> 1 | Some n \<Rightarrow> n)"
  let ?answers = "\<lambda>settled. map (day_answer name w 0) (settle_order settled ?n)"
  from day have j: "j < ?n" by simp
  have aj: "day_answer name w 0 j = Inl e0"
    using failed by (simp only: day_answer_rejected)
  from j have "j \<in> set (settle_order settled ?n)"
    by (simp add: settle_order_set)
  with aj have "Inl e0 \<in> set (?answers settled)"
    by force
  then have "first_rejection (?answers settled) \<noteq> None"
    by (simp only: first_rejection_None) blast
  then obtain e where e: "first_rejection (?answers settled) = Some e"
    by blast
  then have "Inl e \<in> set (?answers settled)"
    by (rule first_rejection_Some)
  then obtain i where i: "i < ?n" and ai: "day_answer name w 0 i = Inl e"
    by (auto simp: settle_order_set)
  have res: "retrieveDays name nDays settled w =
      (Inl e,
       w\<lparr>ticks := ticks w + ?n,
         requests := requests w @ map (day_request name w 0) [0..<?n],
         console := console w @
           [(Stderr, ''Failed to retrieve data from Insyte:'', e),
            (Stdout, ''Failed to retrieve Days from Insyte:'', e)]\<rparr>)"
    using e by (simp add: retrieveDays_eq Let_def)
  from i have "int i < (case nDays of None \<Rightarrow> 1 | Some n \<Rightarrow> n)"
    by simp
  moreover note ai [unfolded day_answer_rejected]
  ultimately have first: "\<exists>e i. fst (retrieveDays name nDays settled w) = Inl e
           \<and> int i < (case nDays of None \<Rightarrow> 1 | Some n \<Rightarrow> n)
           \<and> fault w (length (requests w) + i)
                (HGetAll (''insyte::'' @ name @ ''::'' @
                   format_ddMMyyyy (subDays (clock w (ticks w + i)) i))) = Some e
           \<and> console (snd (retrieveDays name nDays settled w)) =
                console w @
                [(Stderr, ''Failed to retrieve data from Insyte:'', e),
                 (Stdout, ''Failed to retrieve Days from Insyte:'', e)]"
    unfolding res by (intro exI [of _ e] exI [of _ i]) simp
  have "fst (retrieveDays name nDays (j # rest) w) = Inl e0" for rest
  proof -
    from settle_order_first [OF j] obtain order where "settle_order (j # rest) ?n = j # order"
      by blast
    then have "first_rejection (?answers (j # rest)) = Some e0"
      by (simp add: aj)
    then show ?thesis
      by (simp add: retrieveDays_eq Let_def)
  qed
  with first show ?thesis
    by blast
qed

theorem retrieveDays_fail_fast_witness:
  "(2::int) < (case Some 3 of None \<Rightarrow> 1 | Some n \<Rightarrow> n)
   \<and> fst (retrieveDays ''page-view'' (Some 3) [2, 1]
       (example_world\<lparr>fault := (\<lambda>n op. if n = 0 then Some (Error ''E0'')
                                     else if n = 2 then Some (Error ''E2'') else None)\<rparr>)) =
       Inl (Error ''E2'')
   \<and> console (snd (retrieveDays ''page-view'' (Some 3) [2, 1]
       (example_world\<lparr>fault := (\<lambda>n op. if n = 0 then Some (Error ''E0'')
                                     else if n = 2 then Some (Error ''E2'') else None)\<rparr>))) =
       [(Stderr, ''Failed to retrieve data from Insyte:'', Error ''E2''),
        (Stdout, ''Failed to retrieve Days from Insyte:'', Error ''E2'')]"
proof -
  let ?w = "example_world\<lparr>fault := (\<lambda>n op. if n = 0 then Some (Error ''E0'')
                                     else if n = 2 then Some (Error ''E2'') else None)\<rparr>"
  have day: "int 2 < (case Some 3 of None \<Rightarrow> 1 | Some n \<Rightarrow> n)"
    by simp
  have failed: "fault ?w (length (requests ?w) + 2)
      (HGetAll (''insyte::'' @ ''page-view'' @ ''::'' @
         format_ddMMyyyy (subDays (clock ?w (ticks ?w + 2)) 2))) = Some (Error ''E2'')"
    by (simp add: example_world_def)
  note inst = retrieveDays_fail_fast [OF day failed, of "[2, 1]"]
  from inst have first: "fst (retrieveDays ''page-view'' (Some 3) [2, 1] ?w) = Inl (Error ''E2'')"
    by blast
  from inst obtain e where "fst (retrieveDays ''page-view'' (Some 3) [2, 1] ?w) = Inl e"
    and c: "console (snd (retrieveDays ''page-view'' (Some 3) [2, 1] ?w)) =
        console ?w @
        [(Stderr, ''Failed to retrieve data from Insyte:'', e),
         (Stdout, ''Failed to retrieve Days from Insyte:'', e)]"
    by blast
  with first have "e = Error ''E2''"
    by simp
  with c have "console (snd (retrieveDays ''page-view'' (Some 3) [2, 1] ?w)) =
      [(Stderr, ''Failed to retrieve data from Insyte:'', Error ''E2''),
       (Stdout, ''Failed to retrieve Days from Insyte:'', Error ''E2'')]"
    by (simp add: example_world_def)
  with first show ?thesis
    by simp
qed

subsection \<open>The sort\<close>











subsection \<open>The order of the days\<close>








text \<open>
  Nor does it hold before the year 1: \<open>yyyy\<close> writes the year of the era, so the last day
  of the year 0 is written \<open>31/12/0001\<close> and is read back as a day of the year 1. On
  2 January of the year 1 the three results are dated as follows, and the day before
  yesterday comes last.
\<close>

lemma retrieveDays_year_one_example:
  "fst (retrieveDays ''page-view'' (Some 3) [] year_one_world) =
     Inr [\<lparr>date = ''01/01/0001'', event = []\<rparr>, \<lparr>date = ''02/01/0001'', event = []\<rparr>,
          \<lparr>date = ''31/12/0001'', event = []\<rparr>]"
  by code_simp



lemma upt_three: "[0..<3] = [0, 1, 2]"
  by code_simp





end
